theory Spec2Isabelle
  imports Complex_Main "HOL-Library.Sublist"
begin

section \<open>DataPuller: the configuration-driven batch downloader\<close>

text \<open>
  This theory embeds \<^verbatim>\<open>src/DataPuller/DataPuller.py\<close>: the functions
  \<^verbatim>\<open>load_config\<close>, \<^verbatim>\<open>download_file\<close> and \<^verbatim>\<open>main\<close>.
  The script talks to the file system and to the network through library calls
  (\<^verbatim>\<open>open\<close>, \<^verbatim>\<open>json.load\<close>, \<^verbatim>\<open>Path.mkdir\<close>,
  \<^verbatim>\<open>requests.get\<close>, \<^verbatim>\<open>iter_content\<close>, \<^verbatim>\<open>f.write\<close>).
  What those calls answer is a parameter of the model; what the script does with the
  answers (its control flow, its handlers, its counters, its exit status) is the model.
\<close>

subsection \<open>Values produced by the JSON parser\<close>

text \<open>
  \<^verbatim>\<open>json.load\<close> returns \<^verbatim>\<open>None\<close>, a \<^verbatim>\<open>bool\<close>, an \<^verbatim>\<open>int\<close>,
  a \<^verbatim>\<open>float\<close>, a \<^verbatim>\<open>str\<close>, a \<^verbatim>\<open>list\<close> or a \<^verbatim>\<open>dict\<close>.
  A \<open>JObj\<close> holds the items of the parsed dict in insertion order (a dict has every
  key once); a \<open>JStr\<close> holds one \<open>char\<close> per character of the Python string.
\<close>

datatype pyfloat = Finite rat | NaN | PosInf | NegInf

datatype json =
    JNull
  | JBool bool
  | JInt int
  | JFloat pyfloat
  | JStr string
  | JList "json list"
  | JObj "(string \<times> json) list"

text \<open>Python's truth value of an object, as \<^verbatim>\<open>not x\<close> tests it.\<close>

fun truthy :: "json \<Rightarrow> bool" where
  "truthy JNull = False"
| "truthy (JBool b) = b"
| "truthy (JInt i) = (i \<noteq> 0)"
| "truthy (JFloat f) = (f \<noteq> Finite 0)"
| "truthy (JStr s) = (s \<noteq> [])"
| "truthy (JList xs) = (xs \<noteq> [])"
| "truthy (JObj kvs) = (kvs \<noteq> [])"

subsection \<open>Exceptions and the ways a call can end\<close>

text \<open>
  The exception classes the script distinguishes. \<open>FileNotFoundError\<close> is a subclass of
  \<open>OSError\<close>, and so is \<open>RequestException\<close> (requests declares it as a subclass of
  \<^verbatim>\<open>IOError\<close>, which Python 3 makes an alias of \<^verbatim>\<open>OSError\<close>); the
  constructor \<open>OSError\<close> stands for every other \<^verbatim>\<open>OSError\<close>.
  \<open>OtherException\<close> stands for any other subclass of \<^verbatim>\<open>Exception\<close>
  (\<^verbatim>\<open>ValueError\<close>, \<^verbatim>\<open>UnicodeDecodeError\<close>, ...).
\<close>

datatype exn =
    FileNotFoundError
  | OSError
  | RequestException
  | JSONDecodeError
  | AttributeError
  | TypeError
  | OtherException

fun isinstance_RequestException :: "exn \<Rightarrow> bool" where
  "isinstance_RequestException RequestException = True"
| "isinstance_RequestException _ = False"

fun isinstance_IOError :: "exn \<Rightarrow> bool" where
  "isinstance_IOError FileNotFoundError = True"
| "isinstance_IOError OSError = True"
| "isinstance_IOError RequestException = True"
| "isinstance_IOError _ = False"

text \<open>
  A call that does not return either raises an exception nobody has caught yet, or has
  called \<^verbatim>\<open>sys.exit(n)\<close>.
\<close>

datatype abort = SystemExit nat | Exception exn

subsection \<open>Dictionary access, length and iteration on parsed values\<close>

text \<open>
  \<^verbatim>\<open>x.get(key, default)\<close>: only a dict has the method; any other parsed value
  raises \<^verbatim>\<open>AttributeError\<close>.
\<close>

fun py_get :: "json \<Rightarrow> string \<Rightarrow> json \<Rightarrow> exn + json" where
  "py_get (JObj kvs) k d = Inr (case map_of kvs k of Some v \<Rightarrow> v | None \<Rightarrow> d)"
| "py_get _ k d = Inl AttributeError"

text \<open>\<^verbatim>\<open>len(x)\<close>: defined on str, list and dict; \<^verbatim>\<open>TypeError\<close> otherwise.\<close>

fun py_len :: "json \<Rightarrow> exn + nat" where
  "py_len (JStr s) = Inr (length s)"
| "py_len (JList xs) = Inr (length xs)"
| "py_len (JObj kvs) = Inr (length kvs)"
| "py_len _ = Inl TypeError"

text \<open>
  The elements a \<^verbatim>\<open>for\<close> loop draws from a value: the elements of a list, the
  one-character strings of a str, the keys of a dict; \<^verbatim>\<open>TypeError\<close> otherwise.
\<close>

fun py_iter :: "json \<Rightarrow> exn + json list" where
  "py_iter (JList xs) = Inr xs"
| "py_iter (JStr s) = Inr (map (\<lambda>c. JStr [c]) s)"
| "py_iter (JObj kvs) = Inr (map (\<lambda>kv. JStr (fst kv)) kvs)"
| "py_iter _ = Inl TypeError"

subsection \<open>Observable behaviour: printed lines, library calls, file contents\<close>

text \<open>
  A printed line is kept as the pieces of its f-string: literal text and the
  interpolated values, unrendered.
\<close>

datatype frag = Lit string | Val json | Num nat | Exc exn

type_synonym line = "frag list"

definition nl :: string where
  "nl = [CHR 0x0A]"

text \<open>
  The trace records, in order, every \<^verbatim>\<open>print\<close> and every library call that
  touches the file system or the network, whether the call then succeeds or raises:
  \<open>MkdirParents d\<close> for \<^verbatim>\<open>Path(d).parent.mkdir(parents=True, exist_ok=True)\<close>,
  \<open>HttpGet u\<close> for \<^verbatim>\<open>requests.get(u, stream=True, timeout=30)\<close>,
  \<open>OpenWB d\<close> for \<^verbatim>\<open>open(d, 'wb')\<close> and \<open>Write d c\<close> for
  \<^verbatim>\<open>f.write(c)\<close> on the file opened at \<open>d\<close>. The file system maps a path,
  as the string the script passes to \<^verbatim>\<open>open\<close>, to the bytes of the file.
\<close>

datatype event =
    Print line
  | MkdirParents string
  | HttpGet json
  | OpenWB string
  | Write string string

record state =
  trace :: "event list"
  files :: "string \<rightharpoonup> string"

definition emit :: "event \<Rightarrow> state \<Rightarrow> state" where
  "emit e s = s\<lparr>trace := trace s @ [e]\<rparr>"

definition print :: "line \<Rightarrow> state \<Rightarrow> state" where
  "print l s = emit (Print l) s"

subsection \<open>What the world answers\<close>

text \<open>
  A response of \<^verbatim>\<open>requests.get\<close>: its status code, the chunks
  \<^verbatim>\<open>iter_content\<close> yields, and the exception the iterator raises after them
  instead of finishing, if any.
\<close>

record response =
  status_code :: nat
  chunks :: "string list"
  stream_exn :: "exn option"

text \<open>
  What the libraries do during one call of \<^verbatim>\<open>download_file\<close>: what
  \<^verbatim>\<open>mkdir\<close> raises, what \<^verbatim>\<open>requests.get\<close> raises or returns, what
  \<^verbatim>\<open>open(destination, 'wb')\<close> raises, what the k-th \<^verbatim>\<open>f.write\<close>
  raises, and what closing the file raises.
\<close>

record attempt =
  mkdir_exn :: "exn option"
  get_result :: "exn + response"
  open_exn :: "exn option"
  write_exn :: "nat \<Rightarrow> exn option"
  close_exn :: "exn option"

text \<open>
  The world of one run: what opening and parsing the configuration file gives, and
  what the libraries do while the item at each position (counted from 1) is handled.
\<close>

record env =
  read_config :: "string \<Rightarrow> exn + json"
  attempt_at :: "nat \<Rightarrow> attempt"

text \<open>\<^verbatim>\<open>response.raise_for_status()\<close> raises \<^verbatim>\<open>HTTPError\<close>, a
  \<^verbatim>\<open>RequestException\<close>, on a 4xx or 5xx status.\<close>

definition raise_for_status :: "response \<Rightarrow> exn option" where
  "raise_for_status r =
     (if 400 \<le> status_code r \<and> status_code r < 600 then Some RequestException else None)"

subsection \<open>load_config\<close>

definition load_config :: "env \<Rightarrow> string \<Rightarrow> state \<Rightarrow> (abort + json) \<times> state" where
  "load_config e config_path s =
     (case read_config e config_path of
        Inr config \<Rightarrow>
          (case py_get config ''downloads'' (JList []) of
             Inr downloads \<Rightarrow> (Inr downloads, s)
           | Inl x \<Rightarrow> (Inl (Exception x), s))
      | Inl FileNotFoundError \<Rightarrow>
          (Inl (SystemExit 1),
           print [Lit ''Error: Configuration file '', Lit [CHR 0x27], Val (JStr config_path),
                  Lit [CHR 0x27], Lit '' not found.''] s)
      | Inl JSONDecodeError \<Rightarrow>
          (Inl (SystemExit 1),
           print [Lit ''Error: Invalid JSON in configuration file: '', Exc JSONDecodeError] s)
      | Inl x \<Rightarrow> (Inl (Exception x), s))"

subsection \<open>download_file\<close>

text \<open>\<^verbatim>\<open>f.write(chunk)\<close> appends the chunk to the open file.\<close>

definition f_write :: "string \<Rightarrow> string \<Rightarrow> state \<Rightarrow> state" where
  "f_write d c s =
     (emit (Write d c) s)\<lparr>files := (files s)(d \<mapsto> (case files s d of Some old \<Rightarrow> old @ c | None \<Rightarrow> c))\<rparr>"

text \<open>
  The loop \<^verbatim>\<open>for chunk in response.iter_content(...): f.write(chunk)\<close>,
  \<open>k\<close> counting the writes already made. It ends with the exception that cut it
  short, if any.
\<close>

fun write_chunks :: "attempt \<Rightarrow> response \<Rightarrow> string \<Rightarrow> nat \<Rightarrow> string list \<Rightarrow> state \<Rightarrow> exn option \<times> state" where
  "write_chunks w r d k [] s = (stream_exn r, s)"
| "write_chunks w r d k (c # cs) s =
     (case write_exn w k of
        Some x \<Rightarrow> (Some x, emit (Write d c) s)
      | None \<Rightarrow> write_chunks w r d (Suc k) cs (f_write d c s))"

text \<open>
  The \<^verbatim>\<open>with open(destination, 'wb') as f:\<close> statement: opening truncates the
  file; leaving the block closes it, and an exception of the close replaces one in flight.
\<close>

definition with_open_wb :: "attempt \<Rightarrow> response \<Rightarrow> string \<Rightarrow> state \<Rightarrow> exn option \<times> state" where
  "with_open_wb w r d s =
     (let s1 = emit (OpenWB d) s in
      case open_exn w of
        Some x \<Rightarrow> (Some x, s1)
      | None \<Rightarrow>
          (case write_chunks w r d 0 (chunks r) (s1\<lparr>files := (files s1)(d \<mapsto> [])\<rparr>) of
             (res, s2) \<Rightarrow>
               (case close_exn w of
                  Some x \<Rightarrow> (Some x, s2)
                | None \<Rightarrow> (res, s2))))"

text \<open>The body of the \<^verbatim>\<open>try\<close> statement of \<^verbatim>\<open>download_file\<close>.\<close>

definition try_download :: "attempt \<Rightarrow> json \<Rightarrow> json \<Rightarrow> state \<Rightarrow> (exn + bool) \<times> state" where
  "try_download w url destination s =
     (case destination of
        JStr d \<Rightarrow>
          (let s1 = emit (MkdirParents d) s in
           case mkdir_exn w of
             Some x \<Rightarrow> (Inl x, s1)
           | None \<Rightarrow>
               (let s2 = print [Lit ''Downloading: '', Val url] s1;
                    s3 = print [Lit ''Destination: '', Val destination] s2;
                    s4 = emit (HttpGet url) s3
                in case get_result w of
                     Inl x \<Rightarrow> (Inl x, s4)
                   | Inr r \<Rightarrow>
                       (case raise_for_status r of
                          Some x \<Rightarrow> (Inl x, s4)
                        | None \<Rightarrow>
                            (case with_open_wb w r d s4 of
                               (Some x, s5) \<Rightarrow> (Inl x, s5)
                             | (None, s5) \<Rightarrow>
                                 (Inr True,
                                  print [Lit ''Successfully downloaded to '', Val destination,
                                         Lit nl] s5)))))
      | _ \<Rightarrow> (Inl TypeError, s))"

text \<open>
  \<^verbatim>\<open>download_file\<close>: the \<^verbatim>\<open>try\<close> body under its two handlers, tried in
  the order of the source; an exception neither handler matches goes on to the caller.
\<close>

definition download_file :: "attempt \<Rightarrow> json \<Rightarrow> json \<Rightarrow> state \<Rightarrow> (abort + bool) \<times> state" where
  "download_file w url destination s =
     (case try_download w url destination s of
        (Inr b, s') \<Rightarrow> (Inr b, s')
      | (Inl x, s') \<Rightarrow>
          if isinstance_RequestException x then
            (Inr False, print [Lit ''Error downloading '', Val url, Lit '': '', Exc x, Lit nl] s')
          else if isinstance_IOError x then
            (Inr False, print [Lit ''Error writing to '', Val destination, Lit '': '', Exc x, Lit nl] s')
          else (Inl (Exception x), s'))"

subsection \<open>main\<close>

text \<open>
  The loop \<^verbatim>\<open>for idx, item in enumerate(downloads, 1)\<close> with its two counters;
  \<open>n\<close> is \<^verbatim>\<open>len(downloads)\<close>.
\<close>

fun main_loop :: "env \<Rightarrow> nat \<Rightarrow> nat \<Rightarrow> json list \<Rightarrow> nat \<Rightarrow> nat \<Rightarrow> state \<Rightarrow> (abort + nat \<times> nat) \<times> state" where
  "main_loop e n idx [] success_count fail_count s = (Inr (success_count, fail_count), s)"
| "main_loop e n idx (item # rest) success_count fail_count s =
     (case py_get item ''url'' JNull of
        Inl x \<Rightarrow> (Inl (Exception x), s)
      | Inr url \<Rightarrow>
          (case py_get item ''destination'' JNull of
             Inl x \<Rightarrow> (Inl (Exception x), s)
           | Inr destination \<Rightarrow>
               if \<not> truthy url \<or> \<not> truthy destination then
                 main_loop e n (Suc idx) rest success_count (Suc fail_count)
                   (print [Lit ''Skipping item '', Num idx,
                           Lit '': Missing '', Lit [CHR 0x27], Lit ''url'', Lit [CHR 0x27],
                           Lit '' or '', Lit [CHR 0x27], Lit ''destination'', Lit [CHR 0x27],
                           Lit '' field'', Lit nl] s)
               else
                 (case download_file (attempt_at e idx) url destination
                         (print [Lit ''['', Num idx, Lit ''/'', Num n, Lit '']''] s) of
                    (Inl a, s') \<Rightarrow> (Inl a, s')
                  | (Inr True, s') \<Rightarrow> main_loop e n (Suc idx) rest (Suc success_count) fail_count s'
                  | (Inr False, s') \<Rightarrow> main_loop e n (Suc idx) rest success_count (Suc fail_count) s')))"

definition rule_line :: line where
  "rule_line = [Lit (replicate 60 (CHR ''=''))]"

definition summary :: "nat \<Rightarrow> nat \<Rightarrow> nat \<Rightarrow> event list" where
  "summary success_count fail_count n =
     [Print rule_line,
      Print [Lit ''Download Summary:''],
      Print [Lit ''  Successful: '', Num success_count],
      Print [Lit ''  Failed: '', Num fail_count],
      Print [Lit ''  Total: '', Num n]]"

text \<open>\<^verbatim>\<open>sys.argv[1] if len(sys.argv) > 1 else 'download_config.json'\<close>\<close>

definition config_path :: "string list \<Rightarrow> string" where
  "config_path argv = (if length argv > 1 then argv ! 1 else ''download_config.json'')"

definition main :: "string list \<Rightarrow> env \<Rightarrow> state \<Rightarrow> (abort + unit) \<times> state" where
  "main argv e s =
     (let s1 = print [Lit ''Loading configuration from: '', Val (JStr (config_path argv))] s;
          s2 = print rule_line s1
      in case load_config e (config_path argv) s2 of
           (Inl a, s3) \<Rightarrow> (Inl a, s3)
         | (Inr downloads, s3) \<Rightarrow>
             if \<not> truthy downloads then
               (Inl (SystemExit 0),
                print [Lit ''No downloads specified in configuration file.''] s3)
             else
               (case py_len downloads of
                  Inl x \<Rightarrow> (Inl (Exception x), s3)
                | Inr n \<Rightarrow>
                    (let s4 = print [Lit ''Found '', Num n, Lit '' file(s) to download'', Lit nl] s3
                     in case py_iter downloads of
                          Inl x \<Rightarrow> (Inl (Exception x), s4)
                        | Inr items \<Rightarrow>
                            (case main_loop e n 1 items 0 0 s4 of
                               (Inl a, s5) \<Rightarrow> (Inl a, s5)
                             | (Inr (success_count, fail_count), s5) \<Rightarrow>
                                 (let s6 = s5\<lparr>trace := trace s5 @ summary success_count fail_count n\<rparr>
                                  in if fail_count > 0 then (Inl (SystemExit 1), s6)
                                     else (Inr (), s6))))))"

text \<open>
  The exit status of the process: the argument of \<^verbatim>\<open>sys.exit\<close>, 1 when an
  exception reaches the top level, 0 when \<^verbatim>\<open>main\<close> returns.
\<close>

fun exit_status :: "abort + unit \<Rightarrow> nat" where
  "exit_status (Inr u) = 0"
| "exit_status (Inl (SystemExit k)) = k"
| "exit_status (Inl (Exception x)) = 1"

text \<open>A fresh process on a file system: nothing printed or called yet.\<close>

definition start :: "(string \<rightharpoonup> string) \<Rightarrow> state" where
  "start fs = \<lparr>trace = [], files = fs\<rparr>"

definition run :: "string list \<Rightarrow> env \<Rightarrow> (string \<rightharpoonup> string) \<Rightarrow> nat \<times> state" where
  "run argv e fs = (case main argv e (start fs) of (r, s) \<Rightarrow> (exit_status r, s))"

text \<open>The HTTP fetches of a trace, and whether a trace holds any transfer activity.\<close>

fun fetches :: "event list \<Rightarrow> json list" where
  "fetches [] = []"
| "fetches (HttpGet u # es) = u # fetches es"
| "fetches (_ # es) = fetches es"

fun is_print :: "event \<Rightarrow> bool" where
  "is_print (Print l) = True"
| "is_print _ = False"

subsection \<open>Notions used to state and prove the claims\<close>

text \<open>
  The state after some more events and some more file contents: every function of the
  script only appends to the trace and overrides file contents, whatever state it
  starts from.
\<close>

definition advance :: "state \<Rightarrow> event list \<Rightarrow> (string \<rightharpoonup> string) \<Rightarrow> state" where
  "advance s T W = s\<lparr>trace := trace s @ T, files := files s ++ W\<rparr>"

text \<open>
  An item succeeds when it passes the check of the loop and \<^verbatim>\<open>download_file\<close>
  returns \<^verbatim>\<open>True\<close> for it (what it returns does not depend on the state it
  starts from, see \<open>download_file_result\<close>).
\<close>

definition item_succeeds :: "env \<Rightarrow> nat \<Rightarrow> json \<Rightarrow> bool" where
  "item_succeeds e idx item =
     (case py_get item ''url'' JNull of
        Inl x \<Rightarrow> False
      | Inr url \<Rightarrow>
          (case py_get item ''destination'' JNull of
             Inl x \<Rightarrow> False
           | Inr destination \<Rightarrow>
               truthy url \<and> truthy destination \<and>
               fst (download_file (attempt_at e idx) url destination (start Map.empty)) = Inr True))"

text \<open>Every item of the list succeeds, the first one standing at position \<open>idx\<close>.\<close>

fun all_succeed :: "env \<Rightarrow> nat \<Rightarrow> json list \<Rightarrow> bool" where
  "all_succeed e idx [] = True"
| "all_succeed e idx (item # rest) = (item_succeeds e idx item \<and> all_succeed e (Suc idx) rest)"

text \<open>The state in which \<^verbatim>\<open>main\<close> enters its loop over \<open>n\<close> items.\<close>

definition at_loop :: "string list \<Rightarrow> nat \<Rightarrow> state \<Rightarrow> state" where
  "at_loop argv n s =
     print [Lit ''Found '', Num n, Lit '' file(s) to download'', Lit nl]
       (print rule_line
          (print [Lit ''Loading configuration from: '', Val (JStr (config_path argv))] s))"

text \<open>The line the loop prints for an item it skips.\<close>

definition skip_line :: "nat \<Rightarrow> line" where
  "skip_line idx =
     [Lit ''Skipping item '', Num idx,
      Lit '': Missing '', Lit [CHR 0x27], Lit ''url'', Lit [CHR 0x27],
      Lit '' or '', Lit [CHR 0x27], Lit ''destination'', Lit [CHR 0x27],
      Lit '' field'', Lit nl]"

text \<open>An exception the world may raise is a transport or local I/O failure: an instance
  of \<^verbatim>\<open>IOError\<close>, which covers \<^verbatim>\<open>RequestException\<close>.\<close>

fun io_or_none :: "exn option \<Rightarrow> bool" where
  "io_or_none None = True"
| "io_or_none (Some x) = isinstance_IOError x"

text \<open>
  Every exception the libraries raise during one call of \<^verbatim>\<open>download_file\<close> is a
  transport failure or a local I/O failure.
\<close>

definition io_failures_only :: "attempt \<Rightarrow> bool" where
  "io_failures_only w =
     (io_or_none (mkdir_exn w) \<and>
      (case get_result w of
         Inl x \<Rightarrow> isinstance_IOError x
       | Inr r \<Rightarrow>
           io_or_none (stream_exn r) \<and>
           list_all (\<lambda>k. io_or_none (write_exn w k)) [0..<length (chunks r)]) \<and>
      io_or_none (open_exn w) \<and>
      io_or_none (close_exn w))"

text \<open>
  Nothing fails during the call: the directory is created, the fetch returns a response
  with a status below 400 (or above 599), the file opens, every chunk arrives and is
  written, the file closes.
\<close>

definition no_failure :: "attempt \<Rightarrow> bool" where
  "no_failure w =
     (mkdir_exn w = None \<and>
      (case get_result w of
         Inl x \<Rightarrow> False
       | Inr r \<Rightarrow>
           raise_for_status r = None \<and>
           open_exn w = None \<and>
           list_all (\<lambda>k. write_exn w k = None) [0..<length (chunks r)] \<and>
           stream_exn r = None \<and>
           close_exn w = None))"

text \<open>The item passes the check of the loop: both fields are there and truthy.\<close>

definition wanted :: "json \<Rightarrow> bool" where
  "wanted item =
     (case py_get item ''url'' JNull of
        Inl x \<Rightarrow> False
      | Inr url \<Rightarrow>
          (case py_get item ''destination'' JNull of
             Inl x \<Rightarrow> False
           | Inr destination \<Rightarrow> truthy url \<and> truthy destination))"

definition url_of :: "json \<Rightarrow> json" where
  "url_of item = (case py_get item ''url'' JNull of Inl x \<Rightarrow> JNull | Inr url \<Rightarrow> url)"

definition destination_of :: "json \<Rightarrow> json" where
  "destination_of item =
     (case py_get item ''destination'' JNull of Inl x \<Rightarrow> JNull | Inr destination \<Rightarrow> destination)"

text \<open>The directory creations of a trace: one at the start of every call of
  \<^verbatim>\<open>download_file\<close> with a string destination.\<close>

fun mkdirs :: "event list \<Rightarrow> json list" where
  "mkdirs [] = []"
| "mkdirs (MkdirParents d # es) = JStr d # mkdirs es"
| "mkdirs (_ # es) = mkdirs es"

subsection \<open>Sample worlds\<close>

text \<open>A transfer in which every library call succeeds and the body arrives as \<open>cs\<close>.\<close>

definition attempt_ok :: "string list \<Rightarrow> attempt" where
  "attempt_ok cs =
     \<lparr>mkdir_exn = None,
      get_result = Inr \<lparr>status_code = 200, chunks = cs, stream_exn = None\<rparr>,
      open_exn = None, write_exn = (\<lambda>k. None), close_exn = None\<rparr>"

text \<open>A transfer whose host cannot be reached: \<^verbatim>\<open>requests.get\<close> raises.\<close>

definition attempt_offline :: attempt where
  "attempt_offline =
     \<lparr>mkdir_exn = None, get_result = Inl RequestException,
      open_exn = None, write_exn = (\<lambda>k. None), close_exn = None\<rparr>"

text \<open>A transfer whose destination directory cannot be created: \<^verbatim>\<open>mkdir\<close> raises
  \<^verbatim>\<open>PermissionError\<close>, an \<^verbatim>\<open>OSError\<close>.\<close>

definition attempt_unwritable :: attempt where
  "attempt_unwritable =
     \<lparr>mkdir_exn = Some OSError,
      get_result = Inr \<lparr>status_code = 200, chunks = [''data''], stream_exn = None\<rparr>,
      open_exn = None, write_exn = (\<lambda>k. None), close_exn = None\<rparr>"

text \<open>A well-formed work item and a configuration holding a list of items.\<close>

definition work_item :: "string \<Rightarrow> string \<Rightarrow> json" where
  "work_item u d = JObj [(''url'', JStr u), (''destination'', JStr d)]"

definition config_of :: "json list \<Rightarrow> json" where
  "config_of items = JObj [(''downloads'', JList items)]"

text \<open>A world whose configuration file parses to \<open>cfg\<close>.\<close>

definition world :: "json \<Rightarrow> (nat \<Rightarrow> attempt) \<Rightarrow> env" where
  "world cfg ws = \<lparr>read_config = (\<lambda>p. Inr cfg), attempt_at = ws\<rparr>"

text \<open>A world in which the configuration file does not exist.\<close>

definition world_missing_config :: env where
  "world_missing_config =
     \<lparr>read_config = (\<lambda>p. Inl FileNotFoundError), attempt_at = (\<lambda>i. attempt_ok [])\<rparr>"

text \<open>Two well-formed items; a world that serves both, and one whose second host is down.\<close>

definition two_items :: "json list" where
  "two_items = [work_item ''http://h/a'' ''out/a'', work_item ''http://h/b'' ''out/b'']"

definition world_all_ok :: env where
  "world_all_ok = world (config_of two_items) (\<lambda>i. attempt_ok [''abc'', ''def''])"

definition world_second_offline :: env where
  "world_second_offline =
     world (config_of two_items) (\<lambda>i. if i = 2 then attempt_offline else attempt_ok [''abc'', ''def''])"

text \<open>A world with one well-formed item whose destination directory cannot be created.\<close>

definition world_unwritable :: env where
  "world_unwritable =
     world (config_of [work_item ''http://h/a'' ''/srv/a'']) (\<lambda>i. attempt_unwritable)"

text \<open>The defining equations, collected for evaluating the script on sample worlds.\<close>

lemmas sample_defs =
  world_def config_of_def work_item_def two_items_def world_all_ok_def world_second_offline_def
  world_unwritable_def
  attempt_ok_def attempt_offline_def attempt_unwritable_def

lemmas script_defs =
  run_def main_def load_config_def download_file_def try_download_def with_open_wb_def
  raise_for_status_def item_succeeds_def config_path_def
  start_def print_def emit_def f_write_def Let_def

section \<open>Framing: the script only appends events and overrides files\<close>

lemma advance_advance: "advance (advance s T W) T' W' = advance s (T @ T') (W ++ W')"
  by (simp add: advance_def)

lemma emit_advance: "emit ev s = advance s [ev] Map.empty"
  by (simp add: advance_def emit_def)

lemma print_advance: "print l s = advance s [Print l] Map.empty"
  by (simp add: print_def emit_advance)

lemma trace_advance: "trace (advance s T W) = trace s @ T"
  by (simp add: advance_def)

lemma files_advance: "files (advance s T W) = files s ++ W"
  by (simp add: advance_def)

lemma write_chunks_frame:
  "\<exists>res T z. \<forall>s x. files s d = Some x \<longrightarrow>
      write_chunks w r d k cs s = (res, s\<lparr>trace := trace s @ T, files := (files s)(d \<mapsto> x @ z)\<rparr>)"
proof (induction cs arbitrary: k)
  case Nil
  have "\<forall>s x. files s d = Some x \<longrightarrow>
      write_chunks w r d k [] s = (stream_exn r, s\<lparr>trace := trace s @ [], files := (files s)(d \<mapsto> x @ [])\<rparr>)"
    by (simp add: map_upd_triv)
  then show ?case by blast
next
  case (Cons c cs)
  show ?case
  proof (cases "write_exn w k")
    case (Some e)
    then have "\<forall>s x. files s d = Some x \<longrightarrow>
      write_chunks w r d k (c # cs) s = (Some e, s\<lparr>trace := trace s @ [Write d c], files := (files s)(d \<mapsto> x @ [])\<rparr>)"
      by (simp add: map_upd_triv emit_def)
    then show ?thesis by blast
  next
    case None
    from Cons.IH [of "Suc k"] obtain res T z where
      ih: "\<And>s x. files s d = Some x \<Longrightarrow>
        write_chunks w r d (Suc k) cs s = (res, s\<lparr>trace := trace s @ T, files := (files s)(d \<mapsto> x @ z)\<rparr>)"
      by blast
    have "\<forall>s x. files s d = Some x \<longrightarrow>
      write_chunks w r d k (c # cs) s = (res, s\<lparr>trace := trace s @ (Write d c # T), files := (files s)(d \<mapsto> x @ (c @ z))\<rparr>)"
    proof (intro allI impI)
      fix s :: state and x assume x: "files s d = Some x"
      have "files (f_write d c s) d = Some (x @ c)"
        by (simp add: f_write_def emit_def x)
      from ih [OF this] show "write_chunks w r d k (c # cs) s = (res, s\<lparr>trace := trace s @ (Write d c # T), files := (files s)(d \<mapsto> x @ (c @ z))\<rparr>)"
        by (simp add: None f_write_def emit_def x)
    qed
    then show ?thesis by blast
  qed
qed

lemma with_open_wb_frame:
  "\<exists>res T W. \<forall>s. with_open_wb w r d s = (res, advance s T W)"
proof (cases "open_exn w")
  case (Some e)
  then have "\<forall>s. with_open_wb w r d s = (Some e, advance s [OpenWB d] Map.empty)"
    by (simp add: with_open_wb_def emit_advance)
  then show ?thesis by blast
next
  case None
  from write_chunks_frame [of d w r 0 "chunks r"] obtain res T z where
    wc: "\<And>s x. files s d = Some x \<Longrightarrow>
      write_chunks w r d 0 (chunks r) s = (res, s\<lparr>trace := trace s @ T, files := (files s)(d \<mapsto> x @ z)\<rparr>)"
    by blast
  have "\<forall>s. with_open_wb w r d s =
     (case close_exn w of Some x \<Rightarrow> Some x | None \<Rightarrow> res, advance s (OpenWB d # T) [d \<mapsto> z])"
  proof
    fix s :: state
    let ?s1 = "(emit (OpenWB d) s)\<lparr>files := (files (emit (OpenWB d) s))(d \<mapsto> [])\<rparr>"
    have "files ?s1 d = Some []" by simp
    from wc [OF this] show "with_open_wb w r d s =
     (case close_exn w of Some x \<Rightarrow> Some x | None \<Rightarrow> res, advance s (OpenWB d # T) [d \<mapsto> z])"
      by (simp add: with_open_wb_def None emit_def advance_def split: option.splits)
  qed
  then show ?thesis by blast
qed

lemma frame_triv:
  "(\<forall>s. f s = (res, s)) \<Longrightarrow> \<exists>res T W. \<forall>s::state. f s = (res, advance s T W)"
proof -
  assume "\<forall>s. f s = (res, s)"
  then have "\<forall>s. f s = (res, advance s [] Map.empty)" by (simp add: advance_def)
  then show ?thesis by blast
qed

lemma try_download_frame:
  "\<exists>res T W. \<forall>s. try_download w u dst s = (res, advance s T W)"
proof -
  show ?thesis
  proof (cases dst)
    case (JStr d)
    show ?thesis
    proof (cases "mkdir_exn w")
      case (Some x)
      then have "\<forall>s. try_download w u dst s = (Inl x, advance s [MkdirParents d] Map.empty)"
        by (simp add: try_download_def JStr emit_advance)
      then show ?thesis by blast
    next
      case None
      let ?T0 = "[MkdirParents d, Print [Lit ''Downloading: '', Val u],
                  Print [Lit ''Destination: '', Val dst], HttpGet u]"
      show ?thesis
      proof (cases "get_result w")
        case (Inl x)
        then have "\<forall>s. try_download w u dst s = (Inl x, advance s ?T0 Map.empty)"
          by (simp add: try_download_def JStr None emit_advance print_advance advance_advance)
        then show ?thesis by blast
      next
        case (Inr r)
        show ?thesis
        proof (cases "raise_for_status r")
          case (Some x)
          then have "\<forall>s. try_download w u dst s = (Inl x, advance s ?T0 Map.empty)"
            by (simp add: try_download_def JStr None Inr emit_advance print_advance advance_advance)
          then show ?thesis by blast
        next
          case rs: None
          from with_open_wb_frame [of w r d] obtain res T W where
            wo: "\<And>s. with_open_wb w r d s = (res, advance s T W)" by blast
          show ?thesis
          proof (cases res)
            case (Some x)
            then have "\<forall>s. try_download w u dst s = (Inl x, advance s (?T0 @ T) W)"
              by (simp add: try_download_def JStr None Inr rs wo emit_advance print_advance advance_advance)
            then show ?thesis by blast
          next
            case ok: None
            then have "\<forall>s. try_download w u dst s =
                (Inr True, advance s (?T0 @ T @ [Print [Lit ''Successfully downloaded to '', Val dst, Lit nl]]) W)"
              by (simp add: try_download_def JStr None Inr rs wo emit_advance print_advance advance_advance)
            then show ?thesis by blast
          qed
        qed
      qed
    qed
  qed (rule frame_triv, simp add: try_download_def)+
qed

lemma download_file_frame:
  "\<exists>res T W. \<forall>s. download_file w u dst s = (res, advance s T W)"
proof -
  from try_download_frame [of w u dst] obtain res T W where
    td: "\<And>s. try_download w u dst s = (res, advance s T W)" by blast
  show ?thesis
  proof (cases res)
    case (Inr b)
    then have "\<forall>s. download_file w u dst s = (Inr b, advance s T W)"
      by (simp add: download_file_def td)
    then show ?thesis by blast
  next
    case (Inl x)
    consider "isinstance_RequestException x"
      | "\<not> isinstance_RequestException x" "isinstance_IOError x"
      | "\<not> isinstance_RequestException x" "\<not> isinstance_IOError x" by blast
    then show ?thesis
    proof cases
      case 1
      then have "\<forall>s. download_file w u dst s =
          (Inr False, advance s (T @ [Print [Lit ''Error downloading '', Val u, Lit '': '', Exc x, Lit nl]]) W)"
        by (simp add: download_file_def td Inl print_advance advance_advance)
      then show ?thesis by blast
    next
      case 2
      then have "\<forall>s. download_file w u dst s =
          (Inr False, advance s (T @ [Print [Lit ''Error writing to '', Val dst, Lit '': '', Exc x, Lit nl]]) W)"
        by (simp add: download_file_def td Inl print_advance advance_advance)
      then show ?thesis by blast
    next
      case 3
      then have "\<forall>s. download_file w u dst s = (Inl (Exception x), advance s T W)"
        by (simp add: download_file_def td Inl)
      then show ?thesis by blast
    qed
  qed
qed

lemma main_loop_frame:
  "\<exists>res T W. \<forall>s. main_loop e n idx items sc fc s = (res, advance s T W)"
proof (induction items arbitrary: idx sc fc)
  case Nil
  have "\<forall>s. main_loop e n idx [] sc fc s = (Inr (sc, fc), advance s [] Map.empty)"
    by (simp add: advance_def)
  then show ?case by blast
next
  case (Cons item rest)
  show ?case
  proof (cases "py_get item ''url'' JNull")
    case (Inl x)
    then have "\<forall>s. main_loop e n idx (item # rest) sc fc s = (Inl (Exception x), advance s [] Map.empty)"
      by (simp add: advance_def)
    then show ?thesis by blast
  next
    case u: (Inr url)
    show ?thesis
    proof (cases "py_get item ''destination'' JNull")
      case (Inl x)
      then have "\<forall>s. main_loop e n idx (item # rest) sc fc s = (Inl (Exception x), advance s [] Map.empty)"
        by (simp add: advance_def u)
      then show ?thesis by blast
    next
      case d: (Inr dst)
      show ?thesis
      proof (cases "\<not> truthy url \<or> \<not> truthy dst")
        case True
        from Cons.IH [of "Suc idx" sc "Suc fc"] obtain res T W where
          ih: "\<And>s. main_loop e n (Suc idx) rest sc (Suc fc) s = (res, advance s T W)" by blast
        from True have "\<forall>s. main_loop e n idx (item # rest) sc fc s =
           (res, advance s (Print [Lit ''Skipping item '', Num idx,
                           Lit '': Missing '', Lit [CHR 0x27], Lit ''url'', Lit [CHR 0x27],
                           Lit '' or '', Lit [CHR 0x27], Lit ''destination'', Lit [CHR 0x27],
                           Lit '' field'', Lit nl] # T) W)"
          by (auto simp: u d ih print_advance advance_advance)
        then show ?thesis by blast
      next
        case False
        from download_file_frame [of "attempt_at e idx" url dst] obtain r1 T1 W1 where
          df: "\<And>s. download_file (attempt_at e idx) url dst s = (r1, advance s T1 W1)" by blast
        let ?P = "Print [Lit ''['', Num idx, Lit ''/'', Num n, Lit '']'']"
        show ?thesis
        proof (cases r1)
          case (Inl a)
          with False have "\<forall>s. main_loop e n idx (item # rest) sc fc s = (Inl a, advance s (?P # T1) W1)"
            by (simp add: u d df print_advance advance_advance)
          then show ?thesis by blast
        next
          case (Inr b)
          show ?thesis
          proof (cases b)
            case True
            from Cons.IH [of "Suc idx" "Suc sc" fc] obtain res T W where
              ih: "\<And>s. main_loop e n (Suc idx) rest (Suc sc) fc s = (res, advance s T W)" by blast
            from False True have "\<forall>s. main_loop e n idx (item # rest) sc fc s = (res, advance s (?P # T1 @ T) (W1 ++ W))"
              by (simp add: u d df Inr ih print_advance advance_advance)
            then show ?thesis by blast
          next
            case b: False
            from Cons.IH [of "Suc idx" sc "Suc fc"] obtain res T W where
              ih: "\<And>s. main_loop e n (Suc idx) rest sc (Suc fc) s = (res, advance s T W)" by blast
            from False b have "\<forall>s. main_loop e n idx (item # rest) sc fc s = (res, advance s (?P # T1 @ T) (W1 ++ W))"
              by (simp add: u d df Inr ih print_advance advance_advance)
            then show ?thesis by blast
          qed
        qed
      qed
    qed
  qed
qed


section \<open>Results do not depend on the starting state\<close>

lemma download_file_result:
  "fst (download_file w u dst s) = fst (download_file w u dst t)"
proof -
  from download_file_frame [of w u dst] obtain res T W where
    "\<And>s. download_file w u dst s = (res, advance s T W)" by blast
  then show ?thesis by simp
qed

lemma main_loop_result:
  "fst (main_loop e n idx items sc fc s) = fst (main_loop e n idx items sc fc t)"
proof -
  from main_loop_frame [of e n idx items sc fc] obtain res T W where
    "\<And>s. main_loop e n idx items sc fc s = (res, advance s T W)" by blast
  then show ?thesis by simp
qed

lemma download_file_no_exit: "fst (download_file w u dst s) \<noteq> Inl (SystemExit k)"
  by (auto simp: download_file_def split: prod.splits sum.splits)

section \<open>The loop, item by item\<close>

text \<open>The three ways one turn of the loop can go.\<close>

lemma main_loop_abort_get:
  "py_get item ''url'' JNull = Inl x \<or>
   (\<exists>u. py_get item ''url'' JNull = Inr u) \<and> py_get item ''destination'' JNull = Inl x
   \<Longrightarrow> main_loop e n idx (item # rest) sc fc s = (Inl (Exception x), s)"
  by (cases item) auto

lemma main_loop_skip:
  assumes "py_get item ''url'' JNull = Inr url"
    and "py_get item ''destination'' JNull = Inr destination"
    and "\<not> truthy url \<or> \<not> truthy destination"
  shows "main_loop e n idx (item # rest) sc fc s =
         main_loop e n (Suc idx) rest sc (Suc fc)
           (print [Lit ''Skipping item '', Num idx,
                   Lit '': Missing '', Lit [CHR 0x27], Lit ''url'', Lit [CHR 0x27],
                   Lit '' or '', Lit [CHR 0x27], Lit ''destination'', Lit [CHR 0x27],
                   Lit '' field'', Lit nl] s)"
  using assms by auto

lemma main_loop_download:
  assumes "py_get item ''url'' JNull = Inr url"
    and "py_get item ''destination'' JNull = Inr destination"
    and "truthy url" and "truthy destination"
    and "download_file (attempt_at e idx) url destination
           (print [Lit ''['', Num idx, Lit ''/'', Num n, Lit '']''] s) = (r, s')"
  shows "main_loop e n idx (item # rest) sc fc s =
         (case r of
            Inl a \<Rightarrow> (Inl a, s')
          | Inr True \<Rightarrow> main_loop e n (Suc idx) rest (Suc sc) fc s'
          | Inr False \<Rightarrow> main_loop e n (Suc idx) rest sc (Suc fc) s')"
  using assms by (auto split: sum.splits bool.splits)

lemma main_loop_no_exit: "fst (main_loop e n idx items sc fc s) \<noteq> Inl (SystemExit k)"
proof (induction items arbitrary: idx sc fc s)
  case Nil
  then show ?case by simp
next
  case (Cons item rest)
  show ?case
  proof (cases "py_get item ''url'' JNull")
    case (Inl x)
    then show ?thesis by simp
  next
    case u: (Inr url)
    show ?thesis
    proof (cases "py_get item ''destination'' JNull")
      case (Inl x)
      then show ?thesis by (simp add: u)
    next
      case d: (Inr destination)
      show ?thesis
      proof (cases "truthy url \<and> truthy destination")
        case False
        then show ?thesis using Cons.IH by (simp add: u d)
      next
        case True
        obtain r s' where df: "download_file (attempt_at e idx) url destination
           (print [Lit ''['', Num idx, Lit ''/'', Num n, Lit '']''] s) = (r, s')"
          by (cases "download_file (attempt_at e idx) url destination
           (print [Lit ''['', Num idx, Lit ''/'', Num n, Lit '']''] s)")
        have "r \<noteq> Inl (SystemExit k)"
          using download_file_no_exit [of "attempt_at e idx" url destination
            "print [Lit ''['', Num idx, Lit ''/'', Num n, Lit '']''] s" k] df by simp
        then show ?thesis
          using True Cons.IH main_loop_download [OF u d _ _ df, of rest sc fc]
          by (auto split: sum.splits bool.splits)
      qed
    qed
  qed
qed

lemma main_loop_counts:
  "main_loop e n idx items sc fc s = (Inr (sc', fc'), s')
   \<Longrightarrow> sc' + fc' = sc + fc + length items \<and> sc \<le> sc' \<and> fc \<le> fc'"
proof (induction items arbitrary: idx sc fc s)
  case Nil
  then show ?case by simp
next
  case (Cons item rest)
  show ?case
  proof (cases "py_get item ''url'' JNull")
    case (Inl x)
    with Cons.prems show ?thesis by simp
  next
    case u: (Inr url)
    show ?thesis
    proof (cases "py_get item ''destination'' JNull")
      case (Inl x)
      with Cons.prems show ?thesis by (simp add: u)
    next
      case d: (Inr destination)
      show ?thesis
      proof (cases "truthy url \<and> truthy destination")
        case False
        then have "main_loop e n (Suc idx) rest sc (Suc fc)
           (print [Lit ''Skipping item '', Num idx,
                   Lit '': Missing '', Lit [CHR 0x27], Lit ''url'', Lit [CHR 0x27],
                   Lit '' or '', Lit [CHR 0x27], Lit ''destination'', Lit [CHR 0x27],
                   Lit '' field'', Lit nl] s) = (Inr (sc', fc'), s')"
          using Cons.prems by (simp add: u d)
        from Cons.IH [OF this] show ?thesis by simp
      next
        case True
        obtain r t where df: "download_file (attempt_at e idx) url destination
           (print [Lit ''['', Num idx, Lit ''/'', Num n, Lit '']''] s) = (r, t)"
          by (cases "download_file (attempt_at e idx) url destination
           (print [Lit ''['', Num idx, Lit ''/'', Num n, Lit '']''] s)")
        from True have step: "main_loop e n idx (item # rest) sc fc s =
         (case r of
            Inl a \<Rightarrow> (Inl a, t)
          | Inr True \<Rightarrow> main_loop e n (Suc idx) rest (Suc sc) fc t
          | Inr False \<Rightarrow> main_loop e n (Suc idx) rest sc (Suc fc) t)"
          using main_loop_download [OF u d _ _ df] by simp
        show ?thesis
        proof (cases r)
          case (Inl a)
          with step Cons.prems show ?thesis by simp
        next
          case (Inr b)
          show ?thesis
          proof (cases b)
            case True
            with step Inr Cons.prems have "main_loop e n (Suc idx) rest (Suc sc) fc t = (Inr (sc', fc'), s')"
              by simp
            from Cons.IH [OF this] show ?thesis by simp
          next
            case False
            with step Inr Cons.prems have "main_loop e n (Suc idx) rest sc (Suc fc) t = (Inr (sc', fc'), s')"
              by simp
            from Cons.IH [OF this] show ?thesis by simp
          qed
        qed
      qed
    qed
  qed
qed

lemma main_loop_append:
  "main_loop e n idx (xs @ ys) sc fc s =
     (case main_loop e n idx xs sc fc s of
        (Inl a, s') \<Rightarrow> (Inl a, s')
      | (Inr (sc', fc'), s') \<Rightarrow> main_loop e n (idx + length xs) ys sc' fc' s')"
proof (induction xs arbitrary: idx sc fc s)
  case Nil
  then show ?case by simp
next
  case (Cons item rest)
  show ?case
    by (simp add: Cons.IH split: sum.splits prod.splits bool.splits)
qed

lemma item_succeeds_download:
  assumes "py_get item ''url'' JNull = Inr url"
    and "py_get item ''destination'' JNull = Inr destination"
    and "truthy url" and "truthy destination"
  shows "item_succeeds e idx item \<longleftrightarrow> fst (download_file (attempt_at e idx) url destination s) = Inr True"
  using assms download_file_result [of "attempt_at e idx" url destination s "start Map.empty"]
  by (simp add: item_succeeds_def)

lemma main_loop_all_succeed:
  "all_succeed e idx items \<Longrightarrow>
   \<exists>s'. main_loop e n idx items sc fc s = (Inr (sc + length items, fc), s')"
proof (induction items arbitrary: idx sc fc s)
  case Nil
  then show ?case by simp
next
  case (Cons item rest)
  from Cons.prems have ok: "item_succeeds e idx item" and rest: "all_succeed e (Suc idx) rest"
    by simp_all
  from ok obtain url destination where
    u: "py_get item ''url'' JNull = Inr url" and d: "py_get item ''destination'' JNull = Inr destination"
    and tu: "truthy url" and td: "truthy destination"
    by (auto simp: item_succeeds_def split: sum.splits)
  obtain r t where df: "download_file (attempt_at e idx) url destination
           (print [Lit ''['', Num idx, Lit ''/'', Num n, Lit '']''] s) = (r, t)"
    by (cases "download_file (attempt_at e idx) url destination
           (print [Lit ''['', Num idx, Lit ''/'', Num n, Lit '']''] s)")
  from ok item_succeeds_download [OF u d tu td, of e idx "print [Lit ''['', Num idx, Lit ''/'', Num n, Lit '']''] s"] df
  have r: "r = Inr True" by simp
  from Cons.IH [OF rest, of "Suc sc" fc t] obtain s' where
    "main_loop e n (Suc idx) rest (Suc sc) fc t = (Inr (Suc sc + length rest, fc), s')" by blast
  then show ?case
    using main_loop_download [OF u d tu td df, of rest sc fc] r by simp
qed

lemma main_loop_not_all_succeed:
  "\<not> all_succeed e idx items \<Longrightarrow>
   (\<exists>x s'. main_loop e n idx items sc fc s = (Inl (Exception x), s')) \<or>
   (\<exists>sc' fc' s'. main_loop e n idx items sc fc s = (Inr (sc', fc'), s') \<and> fc < fc')"
proof (induction items arbitrary: idx sc fc s)
  case Nil
  then show ?case by simp
next
  case (Cons item rest)
  let ?goal = "(\<exists>x s'. main_loop e n idx (item # rest) sc fc s = (Inl (Exception x), s')) \<or>
   (\<exists>sc' fc' s'. main_loop e n idx (item # rest) sc fc s = (Inr (sc', fc'), s') \<and> fc < fc')"
  have later: "\<And>sc0 fc0 t. fc \<le> fc0 \<Longrightarrow>
      main_loop e n idx (item # rest) sc fc s = main_loop e n (Suc idx) rest sc0 fc0 t \<Longrightarrow>
      (fc < fc0 \<or> \<not> all_succeed e (Suc idx) rest) \<Longrightarrow> ?goal"
  proof -
    fix sc0 fc0 t
    assume le: "fc \<le> fc0"
      and eq: "main_loop e n idx (item # rest) sc fc s = main_loop e n (Suc idx) rest sc0 fc0 t"
      and why: "fc < fc0 \<or> \<not> all_succeed e (Suc idx) rest"
    obtain r s' where res: "main_loop e n (Suc idx) rest sc0 fc0 t = (r, s')"
      by (cases "main_loop e n (Suc idx) rest sc0 fc0 t")
    show ?goal
    proof (cases r)
      case (Inl a)
      with main_loop_no_exit [of e n "Suc idx" rest sc0 fc0 t] res obtain x where "a = Exception x"
        by (cases a) auto
      with Inl res eq show ?thesis by simp
    next
      case (Inr p)
      obtain sc' fc' where p: "p = (sc', fc')" by (cases p)
      from main_loop_counts [of e n "Suc idx" rest sc0 fc0 t sc' fc' s'] res Inr p
      have mono: "fc0 \<le> fc'" by simp
      show ?thesis
      proof (cases "fc < fc0")
        case True
        with mono res Inr p eq show ?thesis by simp
      next
        case False
        with why have "\<not> all_succeed e (Suc idx) rest" by simp
        from Cons.IH [OF this, of sc0 fc0 t] res Inr p have "fc0 < fc'" by simp
        with le res Inr p eq show ?thesis by simp
      qed
    qed
  qed
  show ?case
  proof (cases "py_get item ''url'' JNull")
    case (Inl x)
    then show ?thesis by simp
  next
    case u: (Inr url)
    show ?thesis
    proof (cases "py_get item ''destination'' JNull")
      case (Inl x)
      then show ?thesis by (simp add: u)
    next
      case d: (Inr destination)
      show ?thesis
      proof (cases "truthy url \<and> truthy destination")
        case False
        then show ?thesis
          using later [of "Suc fc" sc] main_loop_skip [OF u d, of e n idx rest sc fc s] by simp
      next
        case True
        then have tu: "truthy url" and td: "truthy destination" by simp_all
        obtain r t where df: "download_file (attempt_at e idx) url destination
           (print [Lit ''['', Num idx, Lit ''/'', Num n, Lit '']''] s) = (r, t)"
          by (cases "download_file (attempt_at e idx) url destination
           (print [Lit ''['', Num idx, Lit ''/'', Num n, Lit '']''] s)")
        note step = main_loop_download [OF u d tu td df, of rest sc fc]
        show ?thesis
        proof (cases r)
          case (Inl a)
          with download_file_no_exit [of "attempt_at e idx" url destination
             "print [Lit ''['', Num idx, Lit ''/'', Num n, Lit '']''] s"] df
          obtain x where "a = Exception x" by (cases a) auto
          with Inl step show ?thesis by simp
        next
          case (Inr b)
          show ?thesis
          proof (cases b)
            case True
            with Inr df item_succeeds_download [OF u d tu td, of e idx "print [Lit ''['', Num idx, Lit ''/'', Num n, Lit '']''] s"]
            have "item_succeeds e idx item" by simp
            with Cons.prems have "\<not> all_succeed e (Suc idx) rest" by simp
            then show ?thesis using later [of fc "Suc sc" t] step Inr True by simp
          next
            case False
            then show ?thesis using later [of "Suc fc" sc t] step Inr by simp
          qed
        qed
      qed
    qed
  qed
qed

section \<open>The run as a whole\<close>

lemma main_on_list:
  assumes "read_config e (config_path argv) = Inr (JObj cfg)"
    and "map_of cfg ''downloads'' = Some (JList items)"
    and "items \<noteq> []"
  shows "main argv e s =
     (case main_loop e (length items) 1 items 0 0 (at_loop argv (length items) s) of
        (Inl a, s5) \<Rightarrow> (Inl a, s5)
      | (Inr (success_count, fail_count), s5) \<Rightarrow>
          (if fail_count > 0 then Inl (SystemExit 1) else Inr (),
           s5\<lparr>trace := trace s5 @ summary success_count fail_count (length items)\<rparr>))"
  using assms
  by (simp add: main_def load_config_def at_loop_def Let_def split: prod.splits sum.splits)

lemma main_nothing_to_do:
  assumes "read_config e (config_path argv) = Inr (JObj cfg)"
    and "map_of cfg ''downloads'' = None \<or> map_of cfg ''downloads'' = Some (JList [])"
  shows "main argv e s =
     (Inl (SystemExit 0),
      print [Lit ''No downloads specified in configuration file.'']
        (print rule_line
           (print [Lit ''Loading configuration from: '', Val (JStr (config_path argv))] s)))"
  using assms
  by (auto simp: main_def load_config_def Let_def)

section \<open>What download_file returns\<close>

lemma write_chunks_None:
  "fst (write_chunks w r d k cs s) = None \<longleftrightarrow>
     (\<forall>i<length cs. write_exn w (k + i) = None) \<and> stream_exn r = None"
proof (induction cs arbitrary: k s)
  case Nil
  then show ?case by simp
next
  case (Cons c cs)
  show ?case
  proof (cases "write_exn w k")
    case (Some x)
    then have "\<not> (\<forall>i<length (c # cs). write_exn w (k + i) = None)"
      by (auto intro: exI [of _ 0])
    with Some show ?thesis by simp
  next
    case None
    have "(\<forall>i<Suc (length cs). write_exn w (k + i) = None) \<longleftrightarrow>
          (\<forall>i<length cs. write_exn w (Suc k + i) = None)"
      using None by (auto simp: All_less_Suc2)
    with None Cons.IH [of "Suc k" "f_write d c s"] show ?thesis by simp
  qed
qed

lemma write_chunks_io:
  "(\<forall>i<length cs. io_or_none (write_exn w (k + i))) \<Longrightarrow> io_or_none (stream_exn r)
   \<Longrightarrow> io_or_none (fst (write_chunks w r d k cs s))"
proof (induction cs arbitrary: k s)
  case Nil
  then show ?case by simp
next
  case (Cons c cs)
  show ?case
  proof (cases "write_exn w k")
    case (Some x)
    with Cons.prems(1) have "io_or_none (Some x)" by (auto dest: spec [of _ 0])
    with Some show ?thesis by simp
  next
    case None
    from Cons.prems(1) have "\<forall>i<length cs. io_or_none (write_exn w (Suc k + i))"
      by (auto simp: All_less_Suc2)
    from Cons.IH [OF this Cons.prems(2), of "f_write d c s"] None show ?thesis by simp
  qed
qed

lemma try_download_result:
  assumes "io_failures_only w"
  shows "case fst (try_download w url (JStr d) s) of
           Inr b \<Rightarrow> b \<and> no_failure w
         | Inl x \<Rightarrow> isinstance_IOError x \<and> \<not> no_failure w"
proof (cases "mkdir_exn w")
  case (Some x)
  with assms show ?thesis
    by (simp add: try_download_def io_failures_only_def no_failure_def)
next
  case mk: None
  show ?thesis
  proof (cases "get_result w")
    case (Inl x)
    with assms mk show ?thesis
      by (simp add: try_download_def io_failures_only_def no_failure_def Let_def)
  next
    case (Inr r)
    show ?thesis
    proof (cases "raise_for_status r")
      case (Some x)
      then have "x = RequestException"
        by (simp add: raise_for_status_def split: if_splits)
      with Some mk Inr show ?thesis
        by (simp add: try_download_def no_failure_def Let_def)
    next
      case rs: None
      let ?s4 = "emit (HttpGet url)
                   (print [Lit ''Destination: '', Val (JStr d)]
                      (print [Lit ''Downloading: '', Val url] (emit (MkdirParents d) s)))"
      have body: "try_download w url (JStr d) s =
          (case with_open_wb w r d ?s4 of
             (Some x, s5) \<Rightarrow> (Inl x, s5)
           | (None, s5) \<Rightarrow>
               (Inr True, print [Lit ''Successfully downloaded to '', Val (JStr d), Lit nl] s5))"
        by (simp add: try_download_def mk Inr rs Let_def)
      show ?thesis
      proof (cases "open_exn w")
        case (Some x)
        with assms have "isinstance_IOError x" by (simp add: io_failures_only_def)
        with Some Inr show ?thesis
          by (simp add: body with_open_wb_def no_failure_def Let_def)
      next
        case op: None
        let ?s6 = "(emit (OpenWB d) ?s4)\<lparr>files := (files (emit (OpenWB d) ?s4))(d \<mapsto> [])\<rparr>"
        obtain res s7 where wc: "write_chunks w r d 0 (chunks r) ?s6 = (res, s7)"
          by (cases "write_chunks w r d 0 (chunks r) ?s6")
        have wo: "with_open_wb w r d ?s4 =
            (case close_exn w of Some x \<Rightarrow> Some x | None \<Rightarrow> res, s7)"
          using wc by (simp add: with_open_wb_def op Let_def split: option.splits)
        from assms Inr have io: "\<forall>i<length (chunks r). io_or_none (write_exn w (0 + i))"
          and st: "io_or_none (stream_exn r)" and cl: "io_or_none (close_exn w)"
          by (simp_all add: io_failures_only_def list_all_iff)
        from write_chunks_io [OF io st, of d ?s6] wc have res_io: "io_or_none res" by simp
        from write_chunks_None [of w r d 0 "chunks r" ?s6] wc
        have res_none: "res = None \<longleftrightarrow>
            (\<forall>i<length (chunks r). write_exn w i = None) \<and> stream_exn r = None" by simp
        have nf: "no_failure w \<longleftrightarrow> res = None \<and> close_exn w = None"
          using mk Inr rs op res_none by (auto simp: no_failure_def list_all_iff)
        show ?thesis
        proof (cases "close_exn w")
          case (Some x)
          with cl nf show ?thesis by (simp add: body wo)
        next
          case None
          with res_io nf show ?thesis by (cases res) (simp_all add: body wo)
        qed
      qed
    qed
  qed
qed

lemma download_file_returns:
  assumes "io_failures_only w"
  shows "fst (download_file w url (JStr d) s) = Inr (no_failure w)"
proof -
  obtain r s' where td: "try_download w url (JStr d) s = (r, s')"
    by (cases "try_download w url (JStr d) s")
  with try_download_result [OF assms, of url d s] show ?thesis
    by (cases r) (auto simp: download_file_def)
qed

lemma all_succeed_nth:
  "all_succeed e idx items \<Longrightarrow> k < length items \<Longrightarrow> item_succeeds e (idx + k) (items ! k)"
proof (induction items arbitrary: idx k)
  case Nil
  then show ?case by simp
next
  case (Cons item rest)
  show ?case
  proof (cases k)
    case 0
    with Cons.prems show ?thesis by simp
  next
    case (Suc j)
    with Cons.prems Cons.IH [of "Suc idx" j] show ?thesis by simp
  qed
qed

section \<open>Fetches and directory creations in the trace\<close>

lemma fetches_append: "fetches (xs @ ys) = fetches xs @ fetches ys"
  by (induction xs rule: fetches.induct) simp_all

lemma mkdirs_append: "mkdirs (xs @ ys) = mkdirs xs @ mkdirs ys"
  by (induction xs rule: mkdirs.induct) simp_all

lemma write_chunks_events:
  "fetches (trace (snd (write_chunks w r d k cs s))) = fetches (trace s) \<and>
   mkdirs (trace (snd (write_chunks w r d k cs s))) = mkdirs (trace s)"
proof (induction cs arbitrary: k s)
  case Nil
  then show ?case by simp
next
  case (Cons c cs)
  show ?case
  proof (cases "write_exn w k")
    case (Some x)
    then show ?thesis by (simp add: emit_def fetches_append mkdirs_append)
  next
    case None
    with Cons.IH [of "Suc k" "f_write d c s"] show ?thesis
      by (simp add: f_write_def emit_def fetches_append mkdirs_append)
  qed
qed

lemma with_open_wb_events:
  "fetches (trace (snd (with_open_wb w r d s))) = fetches (trace s) \<and>
   mkdirs (trace (snd (with_open_wb w r d s))) = mkdirs (trace s)"
proof (cases "open_exn w")
  case (Some x)
  then show ?thesis by (simp add: with_open_wb_def emit_def fetches_append mkdirs_append)
next
  case None
  let ?s6 = "(emit (OpenWB d) s)\<lparr>files := (files (emit (OpenWB d) s))(d \<mapsto> [])\<rparr>"
  have "snd (with_open_wb w r d s) = snd (write_chunks w r d 0 (chunks r) ?s6)"
    by (simp add: with_open_wb_def None Let_def split: prod.splits option.splits)
  with write_chunks_events [of w r d 0 "chunks r" ?s6] show ?thesis
    by (simp add: emit_def fetches_append mkdirs_append)
qed

lemma try_download_events:
  "fetches (trace (snd (try_download w u (JStr d) s))) =
     fetches (trace s) @ (if mkdir_exn w = None then [u] else []) \<and>
   mkdirs (trace (snd (try_download w u (JStr d) s))) = mkdirs (trace s) @ [JStr d]"
proof (cases "mkdir_exn w")
  case (Some x)
  then show ?thesis by (simp add: try_download_def emit_def fetches_append mkdirs_append)
next
  case mk: None
  let ?s4 = "emit (HttpGet u)
               (print [Lit ''Destination: '', Val (JStr d)]
                  (print [Lit ''Downloading: '', Val u] (emit (MkdirParents d) s)))"
  have s4: "fetches (trace ?s4) = fetches (trace s) @ [u]" "mkdirs (trace ?s4) = mkdirs (trace s) @ [JStr d]"
    by (simp_all add: print_def emit_def fetches_append mkdirs_append)
  show ?thesis
  proof (cases "get_result w")
    case (Inl x)
    with mk s4 show ?thesis by (simp add: try_download_def Let_def)
  next
    case (Inr r)
    show ?thesis
    proof (cases "raise_for_status r")
      case (Some x)
      with mk Inr s4 show ?thesis by (simp add: try_download_def Let_def)
    next
      case None
      obtain res s5 where wo: "with_open_wb w r d ?s4 = (res, s5)"
        by (cases "with_open_wb w r d ?s4")
      with with_open_wb_events [of w r d ?s4] s4
      have "fetches (trace s5) = fetches (trace s) @ [u]" "mkdirs (trace s5) = mkdirs (trace s) @ [JStr d]"
        by simp_all
      with mk Inr None wo show ?thesis
        by (cases res) (simp_all add: try_download_def Let_def print_def emit_def fetches_append mkdirs_append)
    qed
  qed
qed

lemma download_file_events:
  "fetches (trace (snd (download_file w u (JStr d) s))) =
     fetches (trace s) @ (if mkdir_exn w = None then [u] else []) \<and>
   mkdirs (trace (snd (download_file w u (JStr d) s))) = mkdirs (trace s) @ [JStr d]"
proof -
  obtain r s' where td: "try_download w u (JStr d) s = (r, s')"
    by (cases "try_download w u (JStr d) s")
  with try_download_events [of w u d s] show ?thesis
    by (cases r) (simp_all add: download_file_def print_def emit_def fetches_append mkdirs_append)
qed

lemma download_file_not_str:
  "\<forall>d. dst \<noteq> JStr d \<Longrightarrow> download_file w u dst s = (Inl (Exception TypeError), s)"
  by (cases dst) (simp_all add: download_file_def try_download_def)

lemma wanted_fields:
  "wanted item \<longleftrightarrow>
     (\<exists>url destination. py_get item ''url'' JNull = Inr url \<and>
        py_get item ''destination'' JNull = Inr destination \<and> truthy url \<and> truthy destination)"
  by (auto simp: wanted_def split: sum.splits)

text \<open>One turn of the loop, seen in the trace.\<close>

lemma main_loop_turn:
  "\<exists>r t F. main_loop e n idx (item # rest) sc fc s =
      (case r of None \<Rightarrow> (Inl (Exception TypeError), t)
               | Some (Inl x) \<Rightarrow> (Inl (Exception x), t)
               | Some (Inr (a, b)) \<Rightarrow> main_loop e n (Suc idx) rest a b t)
     \<and> fetches (trace t) = fetches (trace s) @ F
     \<and> (r \<noteq> None \<longrightarrow>
          F = (if wanted item \<and> mkdir_exn (attempt_at e idx) = None then [url_of item] else []) \<and>
          mkdirs (trace t) = mkdirs (trace s) @ (if wanted item then [destination_of item] else []))
     \<and> (r = None \<longrightarrow> F = [] \<and> wanted item)"
proof (cases "py_get item ''url'' JNull")
  case (Inl x)
  then have "main_loop e n idx (item # rest) sc fc s = (Inl (Exception x), s)" by simp
  moreover from Inl have "\<not> wanted item" by (simp add: wanted_def)
  ultimately show ?thesis
    by (intro exI [of _ "Some (Inl x)"] exI [of _ s] exI [of _ "[]"]) simp
next
  case u: (Inr url)
  show ?thesis
  proof (cases "py_get item ''destination'' JNull")
    case (Inl x)
    then have "main_loop e n idx (item # rest) sc fc s = (Inl (Exception x), s)" by (simp add: u)
    moreover from Inl u have "\<not> wanted item" by (simp add: wanted_def)
    ultimately show ?thesis
      by (intro exI [of _ "Some (Inl x)"] exI [of _ s] exI [of _ "[]"]) simp
  next
    case d: (Inr destination)
    show ?thesis
    proof (cases "truthy url \<and> truthy destination")
      case False
      let ?t = "print [Lit ''Skipping item '', Num idx,
                   Lit '': Missing '', Lit [CHR 0x27], Lit ''url'', Lit [CHR 0x27],
                   Lit '' or '', Lit [CHR 0x27], Lit ''destination'', Lit [CHR 0x27],
                   Lit '' field'', Lit nl] s"
      from False have "main_loop e n idx (item # rest) sc fc s = main_loop e n (Suc idx) rest sc (Suc fc) ?t"
        using main_loop_skip [OF u d, of e n idx rest sc fc s] by simp
      moreover from False u d have "\<not> wanted item" by (simp add: wanted_def)
      moreover have "fetches (trace ?t) = fetches (trace s) @ []" "mkdirs (trace ?t) = mkdirs (trace s)"
        by (simp_all add: print_def emit_def fetches_append mkdirs_append)
      ultimately show ?thesis
        by (intro exI [of _ "Some (Inr (sc, Suc fc))"] exI [of _ ?t] exI [of _ "[]"]) simp
    next
      case True
      then have tu: "truthy url" and td: "truthy destination" by simp_all
      from u d True have w: "wanted item" and uo: "url_of item = url" and
        dof: "destination_of item = destination"
        by (simp_all add: wanted_def url_of_def destination_of_def)
      let ?s1 = "print [Lit ''['', Num idx, Lit ''/'', Num n, Lit '']''] s"
      have s1: "fetches (trace ?s1) = fetches (trace s)" "mkdirs (trace ?s1) = mkdirs (trace s)"
        by (simp_all add: print_def emit_def fetches_append mkdirs_append)
      obtain r t where df: "download_file (attempt_at e idx) url destination ?s1 = (r, t)"
        by (cases "download_file (attempt_at e idx) url destination ?s1")
      note step = main_loop_download [OF u d tu td df, of rest sc fc]
      show ?thesis
      proof (cases "\<exists>p. destination = JStr p")
        case False
        with download_file_not_str [of destination "attempt_at e idx" url ?s1] df
        have "r = Inl (Exception TypeError)" "t = ?s1" by simp_all
        with step s1 w show ?thesis
          by (intro exI [of _ None] exI [of _ ?s1] exI [of _ "[]"]) simp
      next
        case True
        then obtain p where p: "destination = JStr p" by blast
        from download_file_events [of "attempt_at e idx" url p ?s1] df p s1
        have ev: "fetches (trace t) = fetches (trace s) @ (if mkdir_exn (attempt_at e idx) = None then [url] else [])"
          "mkdirs (trace t) = mkdirs (trace s) @ [JStr p]" by simp_all
        show ?thesis
        proof (cases r)
          case (Inl a)
          with download_file_no_exit [of "attempt_at e idx" url destination ?s1] df
          obtain x where "a = Exception x" by (cases a) auto
          with Inl step ev w uo dof p show ?thesis
            by (intro exI [of _ "Some (Inl x)"] exI [of _ t]
                exI [of _ "if mkdir_exn (attempt_at e idx) = None then [url] else []"]) simp
        next
          case (Inr b)
          with step ev w uo dof p show ?thesis
            by (intro exI [of _ "Some (Inr (if b then (Suc sc, fc) else (sc, Suc fc)))"] exI [of _ t]
                exI [of _ "if mkdir_exn (attempt_at e idx) = None then [url] else []"]) simp
        qed
      qed
    qed
  qed
qed

lemma main_loop_fetches_subseq:
  "\<exists>F. fetches (trace (snd (main_loop e n idx items sc fc s))) = fetches (trace s) @ F \<and>
       subseq F (map url_of (filter wanted items))"
proof (induction items arbitrary: idx sc fc s)
  case Nil
  then show ?case by simp
next
  case (Cons item rest)
  from main_loop_turn [of e n idx item rest sc fc s] obtain r t F where
    m: "main_loop e n idx (item # rest) sc fc s =
      (case r of None \<Rightarrow> (Inl (Exception TypeError), t)
               | Some (Inl x) \<Rightarrow> (Inl (Exception x), t)
               | Some (Inr (a, b)) \<Rightarrow> main_loop e n (Suc idx) rest a b t)"
    and f: "fetches (trace t) = fetches (trace s) @ F"
    and some: "r \<noteq> None \<longrightarrow>
          F = (if wanted item \<and> mkdir_exn (attempt_at e idx) = None then [url_of item] else [])"
    and none: "r = None \<longrightarrow> F = [] \<and> wanted item"
    by blast
  have F: "subseq F (map url_of (filter wanted [item]))"
    using some none by (cases r) auto
  have here: "subseq F (map url_of (filter wanted (item # rest)))"
    using list_emb_append_mono [OF F, of "[]" "map url_of (filter wanted rest)"]
    by (cases "wanted item") simp_all
  show ?case
  proof (cases r)
    case None
    with m f here show ?thesis by simp
  next
    case (Some q)
    show ?thesis
    proof (cases q)
      case (Inl x)
      with Some m f here show ?thesis by simp
    next
      case (Inr p)
      obtain a b where p: "p = (a, b)" by (cases p)
      from Cons.IH [of "Suc idx" a b t] obtain G where
        g: "fetches (trace (snd (main_loop e n (Suc idx) rest a b t))) = fetches (trace t) @ G"
        and sg: "subseq G (map url_of (filter wanted rest))" by blast
      have "subseq (F @ G) (map url_of (filter wanted [item]) @ map url_of (filter wanted rest))"
        using F sg by (rule list_emb_append_mono)
      then have "subseq (F @ G) (map url_of (filter wanted (item # rest)))"
        by (cases "wanted item") simp_all
      with Some Inr p m f g show ?thesis by simp
    qed
  qed
qed

lemma main_loop_complete_events:
  "main_loop e n idx items sc fc s = (Inr (a, b), s') \<Longrightarrow>
   mkdirs (trace s') = mkdirs (trace s) @ map destination_of (filter wanted items) \<and>
   fetches (trace s') = fetches (trace s) @
     map (\<lambda>p. url_of (snd p))
       (filter (\<lambda>p. wanted (snd p) \<and> mkdir_exn (attempt_at e (fst p)) = None) (List.enumerate idx items))"
proof (induction items arbitrary: idx sc fc s)
  case Nil
  then show ?case by simp
next
  case (Cons item rest)
  from main_loop_turn [of e n idx item rest sc fc s] obtain r t F where
    m: "main_loop e n idx (item # rest) sc fc s =
      (case r of None \<Rightarrow> (Inl (Exception TypeError), t)
               | Some (Inl x) \<Rightarrow> (Inl (Exception x), t)
               | Some (Inr (a, b)) \<Rightarrow> main_loop e n (Suc idx) rest a b t)"
    and f: "fetches (trace t) = fetches (trace s) @ F"
    and some: "r \<noteq> None \<longrightarrow>
          F = (if wanted item \<and> mkdir_exn (attempt_at e idx) = None then [url_of item] else []) \<and>
          mkdirs (trace t) = mkdirs (trace s) @ (if wanted item then [destination_of item] else [])"
    by blast
  from m Cons.prems obtain a0 b0 where r: "r = Some (Inr (a0, b0))"
    and rest: "main_loop e n (Suc idx) rest a0 b0 t = (Inr (a, b), s')"
    by (cases r) (auto split: sum.splits)
  from Cons.IH [OF rest] f some r show ?case by simp
qed

section \<open>What a run leaves on the file system\<close>

lemma advance_same: "advance s [] Map.empty = s"
  by (simp add: advance_def)

lemma load_config_frame:
  "\<exists>res T. \<forall>s. load_config e p s = (res, advance s T Map.empty)"
proof (cases "read_config e p")
  case (Inr config)
  then have "\<forall>s. load_config e p s =
      (case py_get config ''downloads'' (JList []) of
         Inr downloads \<Rightarrow> Inr downloads | Inl x \<Rightarrow> Inl (Exception x), advance s [] Map.empty)"
    by (simp add: load_config_def advance_same split: sum.splits)
  then show ?thesis by blast
next
  case (Inl x)
  show ?thesis
  proof (cases "x = FileNotFoundError \<or> x = JSONDecodeError")
    case True
    with Inl have "\<forall>s. load_config e p s =
        (Inl (SystemExit 1),
         advance s [Print (if x = FileNotFoundError
                       then [Lit ''Error: Configuration file '', Lit [CHR 0x27],
                             Val (JStr p), Lit [CHR 0x27], Lit '' not found.'']
                       else [Lit ''Error: Invalid JSON in configuration file: '',
                             Exc JSONDecodeError])] Map.empty)"
      by (auto simp: load_config_def print_advance)
    then show ?thesis by blast
  next
    case False
    with Inl have "\<forall>s. load_config e p s = (Inl (Exception x), advance s [] Map.empty)"
      by (cases x) (simp_all add: load_config_def advance_same)
    then show ?thesis by blast
  qed
qed

lemma main_frame:
  "\<exists>res T W. \<forall>s. main argv e s = (res, advance s T W)"
proof -
  let ?H = "[Print [Lit ''Loading configuration from: '', Val (JStr (config_path argv))],
             Print rule_line]"
  from load_config_frame [of e "config_path argv"] obtain lr LT where
    lc: "\<And>s. load_config e (config_path argv) s = (lr, advance s LT Map.empty)" by blast
  show ?thesis
  proof (cases lr)
    case (Inl a)
    then have "\<forall>s. main argv e s = (Inl a, advance s (?H @ LT) Map.empty)"
      by (simp add: main_def lc print_advance advance_advance Let_def)
    then show ?thesis by blast
  next
    case (Inr downloads)
    show ?thesis
    proof (cases "truthy downloads")
      case False
      with Inr have "\<forall>s. main argv e s =
          (Inl (SystemExit 0),
           advance s (?H @ LT @ [Print [Lit ''No downloads specified in configuration file.'']]) Map.empty)"
        by (simp add: main_def lc print_advance advance_advance Let_def)
      then show ?thesis by blast
    next
      case True
      show ?thesis
      proof (cases "py_len downloads")
        case (Inl x)
        with Inr True have "\<forall>s. main argv e s = (Inl (Exception x), advance s (?H @ LT) Map.empty)"
          by (simp add: main_def lc print_advance advance_advance Let_def)
        then show ?thesis by blast
      next
        case n: (Inr n)
        let ?F = "[Print [Lit ''Found '', Num n, Lit '' file(s) to download'', Lit nl]]"
        show ?thesis
        proof (cases "py_iter downloads")
          case (Inl x)
          with Inr True n have "\<forall>s. main argv e s =
              (Inl (Exception x), advance s (?H @ LT @ ?F) Map.empty)"
            by (simp add: main_def lc print_advance advance_advance Let_def)
          then show ?thesis by blast
        next
          case items: (Inr items)
          from main_loop_frame [of e n "Suc 0" items 0 0] obtain r T W where
            ml: "\<And>s. main_loop e n (Suc 0) items 0 0 s = (r, advance s T W)" by blast
          show ?thesis
          proof (cases r)
            case (Inl a)
            with Inr True n items have "\<forall>s. main argv e s =
                (Inl a, advance s (?H @ LT @ ?F @ T) W)"
              by (simp add: main_def lc ml print_advance advance_advance Let_def)
            then show ?thesis by blast
          next
            case p: (Inr p)
            obtain a b where ab: "p = (a, b)" by (cases p)
            from Inr True n items p ab have "\<forall>s. main argv e s =
                (if b > 0 then Inl (SystemExit 1) else Inr (),
                 advance s (?H @ LT @ ?F @ T @ summary a b n) W)"
              by (simp add: main_def lc ml print_advance advance_advance Let_def advance_def)
            then show ?thesis by blast
          qed
        qed
      qed
    qed
  qed
qed

lemma run_files:
  "files (snd (run argv e fs)) = fs ++ files (snd (run argv e Map.empty))"
proof -
  from main_frame [of argv e] obtain res T W where
    "\<And>s. main argv e s = (res, advance s T W)" by blast
  then show ?thesis by (simp add: run_def start_def advance_def)
qed

lemma run_status_same: "fst (run argv e fs) = fst (run argv e fs')"
proof -
  from main_frame [of argv e] obtain res T W where
    "\<And>s. main argv e s = (res, advance s T W)" by blast
  then show ?thesis by (simp add: run_def)
qed

lemma main_loop_dom_mono:
  "dom (files s) \<subseteq> dom (files (snd (main_loop e n idx items sc fc s)))"
proof -
  from main_loop_frame [of e n idx items sc fc] obtain res T W where
    "\<And>s. main_loop e n idx items sc fc s = (res, advance s T W)" by blast
  then show ?thesis by (auto simp: advance_def)
qed

lemma write_chunks_files_ok:
  "fst (write_chunks w r d k cs s) = None \<Longrightarrow> files s d = Some x
   \<Longrightarrow> files (snd (write_chunks w r d k cs s)) = (files s)(d \<mapsto> x @ concat cs)"
proof (induction cs arbitrary: k s x)
  case Nil
  then show ?case by (simp add: map_upd_triv)
next
  case (Cons c cs)
  from Cons.prems(1) have ok: "write_exn w k = None"
    by (cases "write_exn w k") simp_all
  with Cons.prems(1) have rest: "fst (write_chunks w r d (Suc k) cs (f_write d c s)) = None" by simp
  have f: "files (f_write d c s) d = Some (x @ c)"
    using Cons.prems(2) by (simp add: f_write_def emit_def)
  from Cons.IH [OF rest f] ok Cons.prems(2) show ?case
    by (auto simp: f_write_def emit_def fun_eq_iff)
qed

lemma download_file_overwrites:
  assumes "fst (download_file w url (JStr d) s) = Inr True"
  shows "\<exists>r. get_result w = Inr r \<and>
             files (snd (download_file w url (JStr d) s)) = (files s)(d \<mapsto> concat (chunks r))"
proof -
  obtain res s' where td: "try_download w url (JStr d) s = (res, s')"
    by (cases "try_download w url (JStr d) s")
  with assms have res: "res = Inr True"
    by (cases res) (auto simp: download_file_def split: if_splits)
  have df: "download_file w url (JStr d) s = (Inr True, s')"
    using td res by (simp add: download_file_def)
  from td res have mk: "mkdir_exn w = None"
    by (cases "mkdir_exn w") (simp_all add: try_download_def)
  from td res mk obtain r where g: "get_result w = Inr r"
    by (cases "get_result w") (simp_all add: try_download_def Let_def)
  from td res mk g have rs: "raise_for_status r = None"
    by (cases "raise_for_status r") (simp_all add: try_download_def Let_def)
  let ?s4 = "emit (HttpGet url)
               (print [Lit ''Destination: '', Val (JStr d)]
                  (print [Lit ''Downloading: '', Val url] (emit (MkdirParents d) s)))"
  obtain wr s5 where wo: "with_open_wb w r d ?s4 = (wr, s5)"
    by (cases "with_open_wb w r d ?s4")
  from td res mk g rs wo have wr: "wr = None" and s': "s' = print [Lit ''Successfully downloaded to '', Val (JStr d), Lit nl] s5"
    by (cases wr; simp add: try_download_def Let_def)+
  from wo wr have op: "open_exn w = None"
    by (cases "open_exn w") (simp_all add: with_open_wb_def Let_def)
  let ?s6 = "(emit (OpenWB d) ?s4)\<lparr>files := (files (emit (OpenWB d) ?s4))(d \<mapsto> [])\<rparr>"
  obtain cr s7 where wc: "write_chunks w r d 0 (chunks r) ?s6 = (cr, s7)"
    by (cases "write_chunks w r d 0 (chunks r) ?s6")
  from wo wr op wc have cr: "cr = None" and s5: "s5 = s7"
    by (cases "close_exn w"; simp add: with_open_wb_def Let_def)+
  have "files ?s6 d = Some []" by simp
  from write_chunks_files_ok [of w r d 0 "chunks r" ?s6, OF _ this] wc cr
  have "files s7 = (files ?s6)(d \<mapsto> concat (chunks r))" by simp
  then have "files s' = (files s)(d \<mapsto> concat (chunks r))"
    by (simp add: s' s5 print_def emit_def)
  with g df show ?thesis by simp
qed

lemma all_succeed_writes_destinations:
  "all_succeed e idx items \<Longrightarrow> item \<in> set items
   \<Longrightarrow> py_get item ''destination'' JNull = Inr (JStr d)
   \<Longrightarrow> d \<in> dom (files (snd (main_loop e n idx items sc fc s)))"
proof (induction items arbitrary: idx sc fc s)
  case Nil
  then show ?case by simp
next
  case (Cons first rest)
  from Cons.prems(1) have ok: "item_succeeds e idx first" and more: "all_succeed e (Suc idx) rest"
    by simp_all
  from ok obtain url destination where
    u: "py_get first ''url'' JNull = Inr url" and dd: "py_get first ''destination'' JNull = Inr destination"
    and tu: "truthy url" and td: "truthy destination"
    by (auto simp: item_succeeds_def split: sum.splits)
  let ?s1 = "print [Lit ''['', Num idx, Lit ''/'', Num n, Lit '']''] s"
  obtain r t where df: "download_file (attempt_at e idx) url destination ?s1 = (r, t)"
    by (cases "download_file (attempt_at e idx) url destination ?s1")
  from ok item_succeeds_download [OF u dd tu td, of e idx ?s1] df have r: "r = Inr True" by simp
  from main_loop_download [OF u dd tu td df, of rest sc fc] r
  have step: "main_loop e n idx (first # rest) sc fc s = main_loop e n (Suc idx) rest (Suc sc) fc t"
    by simp
  show ?case
  proof (cases "item = first")
    case True
    with Cons.prems(3) dd have dst: "destination = JStr d" by simp
    from download_file_overwrites [of "attempt_at e idx" url d ?s1] df r dst
    have "d \<in> dom (files t)" by auto
    with main_loop_dom_mono [of t e n "Suc idx" rest "Suc sc" fc] step show ?thesis by auto
  next
    case False
    with Cons.prems(2) have "item \<in> set rest" by simp
    from Cons.IH [OF more this Cons.prems(3), of "Suc sc" fc t] step show ?thesis by simp
  qed
qed

lemma run_status_list:
  assumes "read_config e (config_path argv) = Inr (JObj cfg)"
    and "map_of cfg ''downloads'' = Some (JList items)"
    and "items \<noteq> []"
  shows "fst (run argv e fs) = (if all_succeed e 1 items then 0 else 1)"
proof (cases "all_succeed e 1 items")
  case True
  from main_loop_all_succeed [OF this, of "length items" 0 0 "at_loop argv (length items) (start fs)"]
  show ?thesis using True by (auto simp: run_def main_on_list [OF assms])
next
  case False
  from main_loop_not_all_succeed [OF this, of "length items" 0 0 "at_loop argv (length items) (start fs)"]
  show ?thesis using False by (auto simp: run_def main_on_list [OF assms])
qed

section \<open>Fatal configuration errors\<close>

text \<open>
  Claim C2. When the configuration path names a missing file
  (\<^verbatim>\<open>FileNotFoundError\<close>) or a file that does not parse
  (\<^verbatim>\<open>json.JSONDecodeError\<close>), the process ends at once through
  \<^verbatim>\<open>sys.exit(1)\<close>: the exit status is 1, the last thing it did was to print the
  error line, and apart from its three printed lines it did nothing: no directory
  creation, no HTTP fetch, no file opened or written, the file system as it was.
\<close>

theorem fatal_config_error:
  assumes "read_config e (config_path argv) = Inl x"
    and "x = FileNotFoundError \<or> x = JSONDecodeError"
  shows "main argv e (start fs) =
           (Inl (SystemExit 1),
            \<lparr>trace =
               [Print [Lit ''Loading configuration from: '', Val (JStr (config_path argv))],
                Print rule_line,
                Print (if x = FileNotFoundError
                       then [Lit ''Error: Configuration file '', Lit [CHR 0x27],
                             Val (JStr (config_path argv)), Lit [CHR 0x27], Lit '' not found.'']
                       else [Lit ''Error: Invalid JSON in configuration file: '',
                             Exc JSONDecodeError])],
             files = fs\<rparr>)
       \<and> fst (run argv e fs) = 1
       \<and> fetches (trace (snd (run argv e fs))) = []
       \<and> list_all is_print (trace (snd (run argv e fs)))
       \<and> files (snd (run argv e fs)) = fs"
  using assms
  by (auto simp: run_def main_def load_config_def start_def print_def emit_def Let_def)

theorem fatal_config_error_witness:
  "read_config world_missing_config (config_path [''DataPuller.py'', ''missing.json'']) = Inl FileNotFoundError
   \<and> fst (run [''DataPuller.py'', ''missing.json''] world_missing_config Map.empty) = 1
   \<and> fetches (trace (snd (run [''DataPuller.py'', ''missing.json''] world_missing_config Map.empty))) = []"
  using fatal_config_error [of world_missing_config "[''DataPuller.py'', ''missing.json'']" FileNotFoundError Map.empty]
  by (simp add: world_missing_config_def)

section \<open>Exit status\<close>

text \<open>
  Claim C1. With a non-empty \<^verbatim>\<open>downloads\<close> list the process exits with status 0
  exactly when every item succeeded, which is exactly when the loop ends with
  \<^verbatim>\<open>fail_count == 0\<close> (from whatever state \<open>s\<close> it starts: its counters do
  not depend on the state); any other run exits with status 1. With an empty list
  it exits with status 0 through \<^verbatim>\<open>sys.exit(0)\<close>, having printed its two
  header lines and the no-downloads notice and done nothing else.
\<close>

theorem exit_zero_iff_all_succeeded:
  assumes "read_config e (config_path argv) = Inr (JObj cfg)"
    and "map_of cfg ''downloads'' = Some (JList items)"
  shows "(items \<noteq> [] \<longrightarrow>
            (fst (run argv e fs) = 0 \<longleftrightarrow> all_succeed e 1 items)
          \<and> (fst (run argv e fs) = 0 \<longleftrightarrow>
               (\<exists>sc. fst (main_loop e (length items) 1 items 0 0 s) = Inr (sc, 0)))
          \<and> (fst (run argv e fs) = 0 \<or> fst (run argv e fs) = 1))
       \<and> (items = [] \<longrightarrow>
            main argv e (start fs) =
              (Inl (SystemExit 0),
               \<lparr>trace =
                  [Print [Lit ''Loading configuration from: '', Val (JStr (config_path argv))],
                   Print rule_line,
                   Print [Lit ''No downloads specified in configuration file.'']],
                files = fs\<rparr>)
          \<and> fst (run argv e fs) = 0)"
proof (intro conjI impI)
  assume "items = []"
  with assms have nodl: "map_of cfg ''downloads'' = None \<or> map_of cfg ''downloads'' = Some (JList [])"
    by simp
  show "main argv e (start fs) =
              (Inl (SystemExit 0),
               \<lparr>trace =
                  [Print [Lit ''Loading configuration from: '', Val (JStr (config_path argv))],
                   Print rule_line,
                   Print [Lit ''No downloads specified in configuration file.'']],
                files = fs\<rparr>)"
    using main_nothing_to_do [OF assms(1) nodl, of "start fs"]
    by (simp add: print_def emit_def start_def)
  then show "fst (run argv e fs) = 0"
    by (simp add: run_def)
next
  assume ne: "items \<noteq> []"
  let ?n = "length items"
  let ?s4 = "at_loop argv ?n (start fs)"
  note m = main_on_list [OF assms ne, of "start fs"]
  have same: "fst (main_loop e ?n 1 items 0 0 s) = fst (main_loop e ?n 1 items 0 0 ?s4)"
    by (rule main_loop_result)
  have a: "all_succeed e 1 items \<Longrightarrow>
      fst (run argv e fs) = 0 \<and> (\<exists>sc. fst (main_loop e ?n 1 items 0 0 ?s4) = Inr (sc, 0))"
  proof -
    assume "all_succeed e 1 items"
    from main_loop_all_succeed [OF this, of ?n 0 0 ?s4] obtain s' where
      "main_loop e ?n 1 items 0 0 ?s4 = (Inr (0 + ?n, 0), s')" by blast
    then show ?thesis by (simp add: run_def m)
  qed
  have b: "\<not> all_succeed e 1 items \<Longrightarrow>
      fst (run argv e fs) = 1 \<and> \<not> (\<exists>sc. fst (main_loop e ?n 1 items 0 0 ?s4) = Inr (sc, 0))"
  proof -
    assume "\<not> all_succeed e 1 items"
    from main_loop_not_all_succeed [OF this, of ?n 0 0 ?s4]
    show ?thesis by (auto simp: run_def m)
  qed
  from a b show "fst (run argv e fs) = 0 \<longleftrightarrow> all_succeed e 1 items"
    by (cases "all_succeed e 1 items") simp_all
  from a b same show "fst (run argv e fs) = 0 \<longleftrightarrow>
      (\<exists>sc. fst (main_loop e ?n 1 items 0 0 s) = Inr (sc, 0))"
    by (cases "all_succeed e 1 items") simp_all
  from a b show "fst (run argv e fs) = 0 \<or> fst (run argv e fs) = 1"
    by (cases "all_succeed e 1 items") simp_all
qed

theorem exit_zero_iff_all_succeeded_witness:
  "read_config world_second_offline (config_path [''DataPuller.py''])
     = Inr (JObj [(''downloads'', JList two_items)])
   \<and> map_of [(''downloads'', JList two_items)] ''downloads'' = Some (JList two_items)
   \<and> two_items \<noteq> []
   \<and> \<not> all_succeed world_second_offline 1 two_items
   \<and> fst (run [''DataPuller.py''] world_second_offline Map.empty) = 1"
  using exit_zero_iff_all_succeeded
    [of world_second_offline "[''DataPuller.py'']" "[(''downloads'', JList two_items)]" two_items
        Map.empty "start Map.empty"]
  by (auto simp: sample_defs script_defs)

section \<open>The summary and the counters\<close>

text \<open>
  Claim C5. For a list of N items, N at least 1, in which every item's transfer
  succeeds, \<^verbatim>\<open>main\<close> returns normally, so the exit status is 0, and the last
  five lines of the run are the summary with Successful N, Failed 0 and Total N.
\<close>

theorem all_succeed_summary:
  assumes "read_config e (config_path argv) = Inr (JObj cfg)"
    and "map_of cfg ''downloads'' = Some (JList items)"
    and "items \<noteq> []"
    and "all_succeed e 1 items"
  shows "fst (run argv e fs) = 0
       \<and> fst (main argv e (start fs)) = Inr ()
       \<and> (\<exists>T. trace (snd (run argv e fs)) = T @ summary (length items) 0 (length items))"
proof -
  from main_loop_all_succeed [OF assms(4), of "length items" 0 0 "at_loop argv (length items) (start fs)"]
  obtain s' where
    loop: "main_loop e (length items) 1 items 0 0 (at_loop argv (length items) (start fs))
             = (Inr (0 + length items, 0), s')" by blast
  have m: "main argv e (start fs) =
      (Inr (), s'\<lparr>trace := trace s' @ summary (length items) 0 (length items)\<rparr>)"
    using main_on_list [OF assms(1-3), of "start fs"] loop by simp
  then show ?thesis by (simp add: run_def)
qed

theorem all_succeed_summary_witness:
  "read_config world_all_ok (config_path [''DataPuller.py'', ''cfg.json''])
     = Inr (JObj [(''downloads'', JList two_items)])
   \<and> map_of [(''downloads'', JList two_items)] ''downloads'' = Some (JList two_items)
   \<and> two_items \<noteq> []
   \<and> all_succeed world_all_ok 1 two_items
   \<and> fst (run [''DataPuller.py'', ''cfg.json''] world_all_ok Map.empty) = 0
   \<and> (\<exists>T. trace (snd (run [''DataPuller.py'', ''cfg.json''] world_all_ok Map.empty))
            = T @ summary 2 0 2)"
proof -
  have h1: "read_config world_all_ok (config_path [''DataPuller.py'', ''cfg.json''])
     = Inr (JObj [(''downloads'', JList two_items)])"
    by (simp add: sample_defs)
  have h2: "map_of [(''downloads'', JList two_items)] ''downloads'' = Some (JList two_items)"
    by simp
  have h3: "two_items \<noteq> []" by (simp add: two_items_def)
  have h4: "all_succeed world_all_ok 1 two_items"
    by (simp add: sample_defs script_defs)
  have len: "length two_items = 2" by (simp add: two_items_def)
  from all_succeed_summary [OF h1 h2 h3 h4, of Map.empty] h1 h2 h3 h4 len
  show ?thesis by simp
qed

text \<open>
  Claim C8. The loop keeps \<^verbatim>\<open>success_count + fail_count\<close> equal to the number
  of items handled: if handling the first \<open>k\<close> elements of \<^verbatim>\<open>downloads\<close> ends
  with counters \<open>a\<close> and \<open>b\<close>, then \<open>a + b = k\<close>, and the loop goes on from
  exactly these counters with the remaining elements. Hence, for every configuration
  and every behaviour of the world, a run that is not cut short by an uncaught exception
  ends with a summary whose Successful and Failed add up to its Total,
  \<^verbatim>\<open>len(downloads)\<close>.
\<close>

theorem counters_add_up:
  assumes "py_len downloads = Inr n"
    and "py_iter downloads = Inr items"
  shows "(\<forall>k a b s s'. k \<le> n \<and> main_loop e n 1 (take k items) 0 0 s = (Inr (a, b), s') \<longrightarrow>
            a + b = k \<and>
            main_loop e n 1 items 0 0 s = main_loop e n (Suc k) (drop k items) a b s')
       \<and> (read_config e (config_path argv) = Inr cfg \<and>
          py_get cfg ''downloads'' (JList []) = Inr downloads \<and> truthy downloads \<and>
          (\<forall>x. fst (main argv e (start fs)) \<noteq> Inl (Exception x)) \<longrightarrow>
            (\<exists>T a b. trace (snd (run argv e fs)) = T @ summary a b n \<and> a + b = n))"
proof -
  have len: "length items = n"
    using assms by (cases downloads) auto
  have inv: "a + b = k \<and>
            main_loop e n 1 items 0 0 s = main_loop e n (Suc k) (drop k items) a b s'"
    if h: "k \<le> n \<and> main_loop e n 1 (take k items) 0 0 s = (Inr (a, b), s')"
    for k a b s s'
  proof -
    from h have k: "k \<le> length items" and
      pre: "main_loop e n 1 (take k items) 0 0 s = (Inr (a, b), s')"
      using len by simp_all
    from main_loop_counts [OF pre] k have sum: "a + b = k" by simp
    have "main_loop e n 1 (take k items @ drop k items) 0 0 s =
          main_loop e n (1 + length (take k items)) (drop k items) a b s'"
      by (simp only: main_loop_append pre prod.case sum.case)
    with k have "main_loop e n 1 items 0 0 s = main_loop e n (Suc k) (drop k items) a b s'"
      by (simp add: min_absorb2)
    with sum show ?thesis by simp
  qed
  have fin: "\<exists>T a b. trace (snd (run argv e fs)) = T @ summary a b n \<and> a + b = n"
    if run: "read_config e (config_path argv) = Inr cfg \<and>
          py_get cfg ''downloads'' (JList []) = Inr downloads \<and> truthy downloads \<and>
          (\<forall>x. fst (main argv e (start fs)) \<noteq> Inl (Exception x))"
  proof -
    let ?s4 = "at_loop argv n (start fs)"
    from run assms have m: "main argv e (start fs) =
       (case main_loop e n 1 items 0 0 ?s4 of
          (Inl a, s5) \<Rightarrow> (Inl a, s5)
        | (Inr (success_count, fail_count), s5) \<Rightarrow>
            (if fail_count > 0 then Inl (SystemExit 1) else Inr (),
             s5\<lparr>trace := trace s5 @ summary success_count fail_count n\<rparr>))"
      by (simp add: main_def load_config_def at_loop_def Let_def split: prod.splits sum.splits)
    obtain r s5 where loop: "main_loop e n 1 items 0 0 ?s4 = (r, s5)"
      by (cases "main_loop e n 1 items 0 0 ?s4")
    show ?thesis
    proof (cases r)
      case (Inl a)
      with main_loop_no_exit [of e n 1 items 0 0 ?s4] loop obtain x where "a = Exception x"
        by (cases a) auto
      with Inl loop m run show ?thesis by simp
    next
      case (Inr p)
      obtain a b where p: "p = (a, b)" by (cases p)
      from main_loop_counts [of e n 1 items 0 0 ?s4 a b s5] loop Inr p len
      have "a + b = n" by simp
      moreover have "trace (snd (run argv e fs)) = trace s5 @ summary a b n"
        using m loop Inr p by (simp add: run_def)
      ultimately show ?thesis by blast
    qed
  qed
  from inv fin show ?thesis by blast
qed

theorem counters_add_up_witness:
  "py_len (JList two_items) = Inr 2
   \<and> py_iter (JList two_items) = Inr two_items
   \<and> (1::nat) \<le> 2
   \<and> main_loop world_second_offline 2 1 (take 1 two_items) 0 0 (start Map.empty)
        = (Inr (1, 0), snd (main_loop world_second_offline 2 1 (take 1 two_items) 0 0 (start Map.empty)))
   \<and> (1::nat) + 0 = 1
   \<and> read_config world_second_offline (config_path [''DataPuller.py'']) = Inr (config_of two_items)
   \<and> py_get (config_of two_items) ''downloads'' (JList []) = Inr (JList two_items)
   \<and> truthy (JList two_items)
   \<and> fst (main [''DataPuller.py''] world_second_offline (start Map.empty)) = Inl (SystemExit 1)
   \<and> (\<exists>T a b. trace (snd (run [''DataPuller.py''] world_second_offline Map.empty)) = T @ summary a b 2
         \<and> a + b = 2)"
proof -
  have h1: "py_len (JList two_items) = Inr 2" by (simp add: two_items_def)
  have h2: "py_iter (JList two_items) = Inr two_items" by simp
  have h3: "main_loop world_second_offline 2 1 (take 1 two_items) 0 0 (start Map.empty)
        = (Inr (1, 0), snd (main_loop world_second_offline 2 1 (take 1 two_items) 0 0 (start Map.empty)))"
    by (simp add: sample_defs script_defs)
  have h4: "read_config world_second_offline (config_path [''DataPuller.py'']) = Inr (config_of two_items)"
    by (simp add: sample_defs)
  have h5: "py_get (config_of two_items) ''downloads'' (JList []) = Inr (JList two_items)"
    by (simp add: config_of_def)
  have h6: "truthy (JList two_items)" by (simp add: two_items_def)
  have h7: "fst (main [''DataPuller.py''] world_second_offline (start Map.empty)) = Inl (SystemExit 1)"
    by (simp add: sample_defs script_defs)
  from counters_add_up [OF h1 h2, of world_second_offline "[''DataPuller.py'']" "config_of two_items" Map.empty]
    h1 h2 h3 h4 h5 h6 h7
  show ?thesis by simp
qed

section \<open>Items that are skipped\<close>

text \<open>
  Claim C4. When the loop reaches an item that lacks the \<^verbatim>\<open>url\<close> field or the
  \<^verbatim>\<open>destination\<close> field, it prints the skip line, adds exactly one to
  \<^verbatim>\<open>fail_count\<close>, leaves \<^verbatim>\<open>success_count\<close> alone, does not call
  \<^verbatim>\<open>download_file\<close> (the state only gains the printed line: no directory
  creation, no fetch, no write), and goes on with all the remaining items.
\<close>

theorem item_missing_field_skipped:
  assumes "map_of kvs ''url'' = None \<or> map_of kvs ''destination'' = None"
    and "main_loop e n idx before sc fc s = (Inr (a, b), s1)"
  shows "main_loop e n idx (before @ JObj kvs # rest) sc fc s =
         main_loop e n (Suc (idx + length before)) rest a (Suc b)
           (s1\<lparr>trace := trace s1 @ [Print (skip_line (idx + length before))]\<rparr>)
       \<and> main_loop e n (idx + length before) [JObj kvs] a b s1 =
           (Inr (a, Suc b), s1\<lparr>trace := trace s1 @ [Print (skip_line (idx + length before))]\<rparr>)"
proof -
  obtain url destination where u: "py_get (JObj kvs) ''url'' JNull = Inr url"
    and d: "py_get (JObj kvs) ''destination'' JNull = Inr destination"
    and f: "\<not> truthy url \<or> \<not> truthy destination"
    using assms(1) by (auto split: option.splits)
  have step: "main_loop e n i (JObj kvs # r) a b s1 =
      main_loop e n (Suc i) r a (Suc b) (s1\<lparr>trace := trace s1 @ [Print (skip_line i)]\<rparr>)" for i r
    using main_loop_skip [OF u d f, of e n i r a b s1]
    by (simp add: skip_line_def print_def emit_def)
  have "main_loop e n idx (before @ JObj kvs # rest) sc fc s =
        main_loop e n (idx + length before) (JObj kvs # rest) a b s1"
    by (simp only: main_loop_append assms(2) prod.case sum.case)
  with step [of "idx + length before" rest] step [of "idx + length before" "[]"]
  show ?thesis by simp
qed

theorem item_missing_field_skipped_witness:
  "(map_of [(''url'', JStr ''http://h/c'')] ''url'' = None
      \<or> map_of [(''url'', JStr ''http://h/c'')] ''destination'' = None)
   \<and> main_loop world_all_ok 3 1 [] 0 0 (start Map.empty) = (Inr (0, 0), start Map.empty)
   \<and> main_loop world_all_ok 3 1 ([] @ JObj [(''url'', JStr ''http://h/c'')] # two_items) 0 0 (start Map.empty)
      = main_loop world_all_ok 3 2 two_items 0 1 \<lparr>trace = [Print (skip_line 1)], files = Map.empty\<rparr>
   \<and> fst (main_loop world_all_ok 3 1 (JObj [(''url'', JStr ''http://h/c'')] # two_items) 0 0 (start Map.empty))
      = Inr (2, 1)"
proof -
  have h1: "map_of [(''url'', JStr ''http://h/c'')] ''url'' = None
      \<or> map_of [(''url'', JStr ''http://h/c'')] ''destination'' = None" by simp
  have h2: "main_loop world_all_ok 3 1 [] 0 0 (start Map.empty) = (Inr (0, 0), start Map.empty)"
    by simp
  have r: "fst (main_loop world_all_ok 3 2 two_items 0 1 \<lparr>trace = [Print (skip_line 1)], files = Map.empty\<rparr>)
      = Inr (2, 1)"
    by (simp add: sample_defs script_defs)
  from item_missing_field_skipped [OF h1 h2, of two_items] h1 h2 r
  show ?thesis by (simp add: start_def numeral_2_eq_2 del: main_loop.simps)
qed

text \<open>
  Claim C9. The check of the loop is on truth values, not on key presence: an item whose
  \<^verbatim>\<open>url\<close> or \<^verbatim>\<open>destination\<close> is the empty string is handled exactly like
  an item without that field. In the same state both give the same result and the same
  next state: one more failure, the skip line printed, no call of
  \<^verbatim>\<open>download_file\<close>.
\<close>

theorem empty_string_like_missing:
  assumes "map_of kvs ''url'' = Some (JStr []) \<or> map_of kvs ''destination'' = Some (JStr [])"
    and "map_of kvs' ''url'' = None \<or> map_of kvs' ''destination'' = None"
  shows "main_loop e n idx (JObj kvs # rest) sc fc s = main_loop e n idx (JObj kvs' # rest) sc fc s
       \<and> main_loop e n idx (JObj kvs # rest) sc fc s =
           main_loop e n (Suc idx) rest sc (Suc fc) (s\<lparr>trace := trace s @ [Print (skip_line idx)]\<rparr>)
       \<and> main_loop e n idx [JObj kvs] sc fc s =
           (Inr (sc, Suc fc), s\<lparr>trace := trace s @ [Print (skip_line idx)]\<rparr>)"
proof -
  have skip: "main_loop e n idx (JObj m # r) sc fc s =
       main_loop e n (Suc idx) r sc (Suc fc) (s\<lparr>trace := trace s @ [Print (skip_line idx)]\<rparr>)"
    if "\<exists>url destination. py_get (JObj m) ''url'' JNull = Inr url \<and>
          py_get (JObj m) ''destination'' JNull = Inr destination \<and>
          (\<not> truthy url \<or> \<not> truthy destination)" for m r
  proof -
    from that obtain url destination where u: "py_get (JObj m) ''url'' JNull = Inr url"
      and d: "py_get (JObj m) ''destination'' JNull = Inr destination"
      and f: "\<not> truthy url \<or> \<not> truthy destination" by blast
    show ?thesis
      using main_loop_skip [OF u d f, of e n idx r sc fc s]
      by (simp add: skip_line_def print_def emit_def)
  qed
  have e1: "\<exists>url destination. py_get (JObj kvs) ''url'' JNull = Inr url \<and>
          py_get (JObj kvs) ''destination'' JNull = Inr destination \<and>
          (\<not> truthy url \<or> \<not> truthy destination)"
    using assms(1) by (auto split: option.splits)
  have e2: "\<exists>url destination. py_get (JObj kvs') ''url'' JNull = Inr url \<and>
          py_get (JObj kvs') ''destination'' JNull = Inr destination \<and>
          (\<not> truthy url \<or> \<not> truthy destination)"
    using assms(2) by (auto split: option.splits)
  from skip [OF e1, of rest] skip [OF e2, of rest] skip [OF e1, of "[]"]
  show ?thesis by simp
qed

theorem empty_string_like_missing_witness:
  "(map_of [(''url'', JStr ''''), (''destination'', JStr ''out/c'')] ''url'' = Some (JStr [])
      \<or> map_of [(''url'', JStr ''''), (''destination'', JStr ''out/c'')] ''destination'' = Some (JStr []))
   \<and> (map_of [(''destination'', JStr ''out/c'')] ''url'' = None
      \<or> map_of [(''destination'', JStr ''out/c'')] ''destination'' = None)
   \<and> main_loop world_all_ok 1 1 [JObj [(''url'', JStr ''''), (''destination'', JStr ''out/c'')]] 0 0 (start Map.empty)
      = main_loop world_all_ok 1 1 [JObj [(''destination'', JStr ''out/c'')]] 0 0 (start Map.empty)
   \<and> main_loop world_all_ok 1 1 [JObj [(''url'', JStr ''''), (''destination'', JStr ''out/c'')]] 0 0 (start Map.empty)
      = (Inr (0, 1), \<lparr>trace = [Print (skip_line 1)], files = Map.empty\<rparr>)"
proof -
  have h1: "map_of [(''url'', JStr ''''), (''destination'', JStr ''out/c'')] ''url'' = Some (JStr [])
      \<or> map_of [(''url'', JStr ''''), (''destination'', JStr ''out/c'')] ''destination'' = Some (JStr [])"
    by simp
  have h2: "map_of [(''destination'', JStr ''out/c'')] ''url'' = None
      \<or> map_of [(''destination'', JStr ''out/c'')] ''destination'' = None" by simp
  from empty_string_like_missing [OF h1 h2, of world_all_ok 1 1 "[]" 0 0 "start Map.empty"] h1 h2
  show ?thesis by (simp add: start_def)
qed

section \<open>A configuration without the downloads key\<close>

text \<open>
  Claim C10. A configuration that parses to a JSON object without the key
  \<^verbatim>\<open>downloads\<close> is not a fatal error: \<^verbatim>\<open>load_config\<close> returns the empty
  list, printing nothing, and the process ends through \<^verbatim>\<open>sys.exit(0)\<close> after
  the no-downloads notice. The whole run, exit status, printed lines and file system, is
  the same as with a configuration whose \<^verbatim>\<open>downloads\<close> is the empty list.
\<close>

theorem missing_downloads_key_not_fatal:
  assumes "read_config e (config_path argv) = Inr (JObj cfg)"
    and "map_of cfg ''downloads'' = None"
    and "read_config e' (config_path argv) = Inr (JObj [(''downloads'', JList [])])"
  shows "load_config e (config_path argv) s = (Inr (JList []), s)
       \<and> main argv e (start fs) =
           (Inl (SystemExit 0),
            \<lparr>trace =
               [Print [Lit ''Loading configuration from: '', Val (JStr (config_path argv))],
                Print rule_line,
                Print [Lit ''No downloads specified in configuration file.'']],
             files = fs\<rparr>)
       \<and> fst (run argv e fs) = 0
       \<and> run argv e fs = run argv e' fs"
proof -
  have l: "load_config e (config_path argv) s = (Inr (JList []), s)"
    using assms(1,2) by (simp add: load_config_def)
  have a: "main argv e (start fs) =
           (Inl (SystemExit 0),
            \<lparr>trace =
               [Print [Lit ''Loading configuration from: '', Val (JStr (config_path argv))],
                Print rule_line,
                Print [Lit ''No downloads specified in configuration file.'']],
             files = fs\<rparr>)"
    using main_nothing_to_do [OF assms(1), of "start fs"] assms(2)
    by (simp add: print_def emit_def start_def)
  have "map_of [(''downloads'', JList [])] ''downloads'' = None
        \<or> map_of [(''downloads'', JList [])] ''downloads'' = Some (JList [])" by simp
  from main_nothing_to_do [OF assms(3) this, of "start fs"]
  have b: "main argv e' (start fs) = main argv e (start fs)"
    using main_nothing_to_do [OF assms(1), of "start fs"] assms(2) by simp
  from l a b show ?thesis by (simp add: run_def)
qed

theorem missing_downloads_key_not_fatal_witness:
  "read_config (world (JObj [(''files'', JList two_items)]) (\<lambda>i. attempt_ok []))
       (config_path [''DataPuller.py'']) = Inr (JObj [(''files'', JList two_items)])
   \<and> map_of [(''files'', JList two_items)] ''downloads'' = None
   \<and> read_config (world (config_of []) (\<lambda>i. attempt_ok []))
       (config_path [''DataPuller.py'']) = Inr (JObj [(''downloads'', JList [])])
   \<and> fst (run [''DataPuller.py''] (world (JObj [(''files'', JList two_items)]) (\<lambda>i. attempt_ok [])) Map.empty) = 0
   \<and> run [''DataPuller.py''] (world (JObj [(''files'', JList two_items)]) (\<lambda>i. attempt_ok [])) Map.empty
      = run [''DataPuller.py''] (world (config_of []) (\<lambda>i. attempt_ok [])) Map.empty"
proof -
  have h1: "read_config (world (JObj [(''files'', JList two_items)]) (\<lambda>i. attempt_ok []))
       (config_path [''DataPuller.py'']) = Inr (JObj [(''files'', JList two_items)])"
    by (simp add: world_def)
  have h2: "map_of [(''files'', JList two_items)] ''downloads'' = None" by simp
  have h3: "read_config (world (config_of []) (\<lambda>i. attempt_ok []))
       (config_path [''DataPuller.py'']) = Inr (JObj [(''downloads'', JList [])])"
    by (simp add: world_def config_of_def)
  from missing_downloads_key_not_fatal [OF h1 h2 h3, of "start Map.empty" Map.empty] h1 h2 h3
  show ?thesis by blast
qed

section \<open>Failures of a transfer stay inside download_file\<close>

text \<open>
  Claim C3. For every URL and every string destination, when all that the libraries raise
  during the call is transport failures (\<^verbatim>\<open>RequestException\<close>: connection error,
  timeout, and the \<^verbatim>\<open>HTTPError\<close> that \<^verbatim>\<open>raise_for_status\<close> makes of a 4xx or
  5xx status) and local I/O failures (\<^verbatim>\<open>OSError\<close> from \<^verbatim>\<open>mkdir\<close>,
  \<^verbatim>\<open>open\<close>, \<^verbatim>\<open>write\<close> or the close), \<^verbatim>\<open>download_file\<close> returns a
  boolean and never an exception: \<^verbatim>\<open>True\<close> when nothing failed and
  \<^verbatim>\<open>False\<close> as soon as anything did. After such a failure the loop counts one
  more failure and goes on with the next item, and the process exits with status 1.
\<close>

theorem transfer_failure_contained:
  assumes "io_failures_only w"
  shows "fst (download_file w url (JStr d) s) = Inr (no_failure w)
       \<and> (\<not> no_failure w \<and> attempt_at e idx = w \<and>
          py_get item ''url'' JNull = Inr url \<and> py_get item ''destination'' JNull = Inr (JStr d) \<and>
          truthy url \<and> d \<noteq> [] \<longrightarrow>
            main_loop e n idx (item # rest) sc fc s =
            main_loop e n (Suc idx) rest sc (Suc fc)
              (snd (download_file w url (JStr d)
                      (print [Lit ''['', Num idx, Lit ''/'', Num n, Lit '']''] s)))
          \<and> (\<forall>argv cfg before fs.
                read_config e (config_path argv) = Inr (JObj cfg) \<and>
                map_of cfg ''downloads'' = Some (JList (before @ item # rest)) \<and>
                idx = Suc (length before)
                \<longrightarrow> fst (run argv e fs) = 1))"
proof (intro conjI impI allI)
  show r: "fst (download_file w url (JStr d) s) = Inr (no_failure w)"
    by (rule download_file_returns [OF assms])
next
  assume h: "\<not> no_failure w \<and> attempt_at e idx = w \<and>
          py_get item ''url'' JNull = Inr url \<and> py_get item ''destination'' JNull = Inr (JStr d) \<and>
          truthy url \<and> d \<noteq> []"
  then have u: "py_get item ''url'' JNull = Inr url"
    and dd: "py_get item ''destination'' JNull = Inr (JStr d)"
    and tu: "truthy url" and td: "truthy (JStr d)" and w: "attempt_at e idx = w"
    and nf: "\<not> no_failure w" by simp_all
  let ?s1 = "print [Lit ''['', Num idx, Lit ''/'', Num n, Lit '']''] s"
  obtain r s' where df: "download_file (attempt_at e idx) url (JStr d) ?s1 = (r, s')"
    by (cases "download_file (attempt_at e idx) url (JStr d) ?s1")
  from download_file_returns [OF assms, of url d ?s1] df w nf have r: "r = Inr False" by simp
  from main_loop_download [OF u dd tu td df, of rest sc fc] r df w
  show "main_loop e n idx (item # rest) sc fc s =
            main_loop e n (Suc idx) rest sc (Suc fc)
              (snd (download_file w url (JStr d) ?s1))" by simp
next
  fix argv cfg before fs
  assume h: "\<not> no_failure w \<and> attempt_at e idx = w \<and>
          py_get item ''url'' JNull = Inr url \<and> py_get item ''destination'' JNull = Inr (JStr d) \<and>
          truthy url \<and> d \<noteq> []"
    and c: "read_config e (config_path argv) = Inr (JObj cfg) \<and>
                map_of cfg ''downloads'' = Some (JList (before @ item # rest)) \<and>
                idx = Suc (length before)"
  let ?items = "before @ item # rest"
  from h have u: "py_get item ''url'' JNull = Inr url"
    and dd: "py_get item ''destination'' JNull = Inr (JStr d)"
    and tu: "truthy url" and td: "truthy (JStr d)" and w: "attempt_at e idx = w"
    and nf: "\<not> no_failure w" by simp_all
  have "\<not> item_succeeds e idx item"
    using item_succeeds_download [OF u dd tu td, of e idx s]
      download_file_returns [OF assms, of url d s] w nf by simp
  moreover have "all_succeed e 1 ?items \<Longrightarrow> item_succeeds e idx item"
    using all_succeed_nth [of e 1 ?items "length before"] c by simp
  ultimately have bad: "\<not> all_succeed e 1 ?items" by blast
  have ne: "?items \<noteq> []" by simp
  from c have rc: "read_config e (config_path argv) = Inr (JObj cfg)"
    and dl: "map_of cfg ''downloads'' = Some (JList ?items)" by simp_all
  from main_loop_not_all_succeed [OF bad, of "length ?items" 0 0 "at_loop argv (length ?items) (start fs)"]
  show "fst (run argv e fs) = 1"
    by (auto simp: run_def main_on_list [OF rc dl ne])
qed

theorem transfer_failure_contained_witness:
  "io_failures_only attempt_offline
   \<and> \<not> no_failure attempt_offline
   \<and> attempt_at world_second_offline 2 = attempt_offline
   \<and> py_get (work_item ''http://h/b'' ''out/b'') ''url'' JNull = Inr (JStr ''http://h/b'')
   \<and> py_get (work_item ''http://h/b'' ''out/b'') ''destination'' JNull = Inr (JStr ''out/b'')
   \<and> truthy (JStr ''http://h/b'') \<and> ''out/b'' \<noteq> []
   \<and> read_config world_second_offline (config_path [''DataPuller.py''])
        = Inr (JObj [(''downloads'', JList ([work_item ''http://h/a'' ''out/a''] @ work_item ''http://h/b'' ''out/b'' # []))])
   \<and> map_of [(''downloads'', JList ([work_item ''http://h/a'' ''out/a''] @ work_item ''http://h/b'' ''out/b'' # []))] ''downloads''
        = Some (JList ([work_item ''http://h/a'' ''out/a''] @ work_item ''http://h/b'' ''out/b'' # []))
   \<and> (2::nat) = Suc (length [work_item ''http://h/a'' ''out/a''])
   \<and> fst (download_file attempt_offline (JStr ''http://h/b'') (JStr ''out/b'') (start Map.empty)) = Inr False
   \<and> fst (run [''DataPuller.py''] world_second_offline Map.empty) = 1"
proof -
  have h0: "io_failures_only attempt_offline"
    by (simp add: io_failures_only_def attempt_offline_def)
  have h1: "\<not> no_failure attempt_offline"
    by (simp add: no_failure_def attempt_offline_def)
  have h2: "attempt_at world_second_offline 2 = attempt_offline"
    by (simp add: sample_defs)
  have h3: "py_get (work_item ''http://h/b'' ''out/b'') ''url'' JNull = Inr (JStr ''http://h/b'')"
    "py_get (work_item ''http://h/b'' ''out/b'') ''destination'' JNull = Inr (JStr ''out/b'')"
    "truthy (JStr ''http://h/b'')" "''out/b'' \<noteq> []"
    by (simp_all add: work_item_def)
  have h4: "read_config world_second_offline (config_path [''DataPuller.py''])
        = Inr (JObj [(''downloads'', JList ([work_item ''http://h/a'' ''out/a''] @ work_item ''http://h/b'' ''out/b'' # []))])"
    by (simp add: sample_defs)
  have h5: "map_of [(''downloads'', JList ([work_item ''http://h/a'' ''out/a''] @ work_item ''http://h/b'' ''out/b'' # []))] ''downloads''
        = Some (JList ([work_item ''http://h/a'' ''out/a''] @ work_item ''http://h/b'' ''out/b'' # []))"
    by simp
  have h6: "(2::nat) = Suc (length [work_item ''http://h/a'' ''out/a''])" by simp
  note t = transfer_failure_contained [OF h0, of "JStr ''http://h/b''" "''out/b''" "start Map.empty"
      world_second_offline 2 "work_item ''http://h/b'' ''out/b''" 2 "[]" 0 0]
  from t h1 have a: "fst (download_file attempt_offline (JStr ''http://h/b'') (JStr ''out/b'') (start Map.empty)) = Inr False"
    by simp
  from t h1 h2 h3 h4 h5 h6 have b: "fst (run [''DataPuller.py''] world_second_offline Map.empty) = 1"
    by blast
  from a b h0 h1 h2 h3 h4 h5 h6 show ?thesis by blast
qed

section \<open>One attempt per item, in list order\<close>

text \<open>
  Claim C6 says that every item with both required fields present triggers exactly one
  transfer attempt, a single HTTP fetch. As stated this fails: \<^verbatim>\<open>download_file\<close>
  creates the destination directory before it fetches, so an item with both fields
  present whose directory cannot be created is attempted without any HTTP fetch. In the
  world below the only item is well formed, \<^verbatim>\<open>mkdir\<close> raises
  \<^verbatim>\<open>PermissionError\<close>, the run counts the item as failed and exits with status 1,
  and no fetch has been made.
\<close>

theorem one_fetch_per_item_counterexample:
  "read_config world_unwritable (config_path [''DataPuller.py''])
     = Inr (config_of [work_item ''http://h/a'' ''/srv/a''])
   \<and> map_of [(''url'', JStr ''http://h/a''), (''destination'', JStr ''/srv/a'')] ''url''
       = Some (JStr ''http://h/a'')
   \<and> map_of [(''url'', JStr ''http://h/a''), (''destination'', JStr ''/srv/a'')] ''destination''
       = Some (JStr ''/srv/a'')
   \<and> fst (run [''DataPuller.py''] world_unwritable Map.empty) = 1
   \<and> mkdirs (trace (snd (run [''DataPuller.py''] world_unwritable Map.empty))) = [JStr ''/srv/a'']
   \<and> fetches (trace (snd (run [''DataPuller.py''] world_unwritable Map.empty))) = []
   \<and> length (fetches (trace (snd (run [''DataPuller.py''] world_unwritable Map.empty))))
       \<noteq> length (filter wanted [work_item ''http://h/a'' ''/srv/a''])"
  by (simp add: sample_defs script_defs wanted_def summary_def)

text \<open>
  Claim C6, amended. The items are handled one at a time in list order, and nothing is
  retried: in every run the HTTP fetches are, in order, fetches of the urls of items that
  pass the check of the loop (both fields truthy), at most one fetch per such item. In a
  run that no uncaught exception cuts short, \<^verbatim>\<open>download_file\<close> is called exactly
  once for each item that passes the check and for no other item (the directory creations
  are exactly the destinations of these items, in order), and each call makes exactly one
  HTTP fetch when its directory creation did not raise and none when it did.
\<close>

theorem one_call_per_wanted_item:
  assumes "read_config e (config_path argv) = Inr (JObj cfg)"
    and "map_of cfg ''downloads'' = Some (JList items)"
  shows "subseq (fetches (trace (snd (run argv e fs)))) (map url_of (filter wanted items))
       \<and> ((\<forall>x. fst (main argv e (start fs)) \<noteq> Inl (Exception x)) \<longrightarrow>
            mkdirs (trace (snd (run argv e fs))) = map destination_of (filter wanted items) \<and>
            fetches (trace (snd (run argv e fs))) =
              map (\<lambda>p. url_of (snd p))
                (filter (\<lambda>p. wanted (snd p) \<and> mkdir_exn (attempt_at e (fst p)) = None)
                   (List.enumerate 1 items)))"
proof (cases "items = []")
  case True
  with assms have nodl: "map_of cfg ''downloads'' = None \<or> map_of cfg ''downloads'' = Some (JList [])"
    by simp
  from main_nothing_to_do [OF assms(1) nodl, of "start fs"] True show ?thesis
    by (simp add: run_def print_def emit_def start_def)
next
  case False
  let ?n = "length items"
  let ?s4 = "at_loop argv ?n (start fs)"
  note m = main_on_list [OF assms False, of "start fs"]
  have s4: "fetches (trace ?s4) = []" "mkdirs (trace ?s4) = []"
    by (simp_all add: at_loop_def print_def emit_def start_def)
  have sm: "fetches (summary a b c) = []" "mkdirs (summary a b c) = []" for a b c
    by (simp_all add: summary_def)
  obtain r s5 where loop: "main_loop e ?n 1 items 0 0 ?s4 = (r, s5)"
    by (cases "main_loop e ?n 1 items 0 0 ?s4")
  from main_loop_fetches_subseq [of e ?n 1 items 0 0 ?s4] loop s4
  have sub: "subseq (fetches (trace s5)) (map url_of (filter wanted items))" by auto
  show ?thesis
  proof (cases r)
    case (Inl a)
    with main_loop_no_exit [of e ?n 1 items 0 0 ?s4] loop obtain x where "a = Exception x"
      by (cases a) auto
    with Inl loop m sub show ?thesis by (simp add: run_def)
  next
    case (Inr p)
    obtain a b where p: "p = (a, b)" by (cases p)
    from main_loop_complete_events [of e ?n 1 items 0 0 ?s4 a b s5] loop Inr p s4
    have ev: "mkdirs (trace s5) = map destination_of (filter wanted items)"
      "fetches (trace s5) =
         map (\<lambda>p. url_of (snd p))
           (filter (\<lambda>p. wanted (snd p) \<and> mkdir_exn (attempt_at e (fst p)) = None)
              (List.enumerate 1 items))" by simp_all
    have "snd (run argv e fs) = s5\<lparr>trace := trace s5 @ summary a b ?n\<rparr>"
      using m loop Inr p by (simp add: run_def)
    with ev sub show ?thesis by (simp add: fetches_append mkdirs_append sm)
  qed
qed

theorem one_call_per_wanted_item_witness:
  "read_config world_second_offline (config_path [''DataPuller.py''])
     = Inr (JObj [(''downloads'', JList two_items)])
   \<and> map_of [(''downloads'', JList two_items)] ''downloads'' = Some (JList two_items)
   \<and> fst (main [''DataPuller.py''] world_second_offline (start Map.empty)) = Inl (SystemExit 1)
   \<and> map destination_of (filter wanted two_items) = [JStr ''out/a'', JStr ''out/b'']
   \<and> mkdirs (trace (snd (run [''DataPuller.py''] world_second_offline Map.empty)))
       = [JStr ''out/a'', JStr ''out/b'']
   \<and> fetches (trace (snd (run [''DataPuller.py''] world_second_offline Map.empty)))
       = [JStr ''http://h/a'', JStr ''http://h/b'']"
proof -
  have h1: "read_config world_second_offline (config_path [''DataPuller.py''])
     = Inr (JObj [(''downloads'', JList two_items)])"
    by (simp add: sample_defs)
  have h2: "map_of [(''downloads'', JList two_items)] ''downloads'' = Some (JList two_items)"
    by simp
  have h3: "fst (main [''DataPuller.py''] world_second_offline (start Map.empty)) = Inl (SystemExit 1)"
    by (simp add: sample_defs script_defs)
  have h4: "map destination_of (filter wanted two_items) = [JStr ''out/a'', JStr ''out/b'']"
    by (simp add: two_items_def work_item_def wanted_def destination_of_def)
  have h5: "map (\<lambda>p. url_of (snd p))
                (filter (\<lambda>p. wanted (snd p) \<and> mkdir_exn (attempt_at world_second_offline (fst p)) = None)
                   (List.enumerate 1 two_items)) = [JStr ''http://h/a'', JStr ''http://h/b'']"
    by (simp add: sample_defs wanted_def url_of_def enumerate_eq_zip upt_rec)
  from one_call_per_wanted_item [OF h1 h2, of Map.empty] h1 h2 h3 h4 h5
  show ?thesis by simp
qed

section \<open>Running twice\<close>

text \<open>
  Claim C7. Re-running is idempotent on the file system, the last run winning. A successful
  download replaces whatever the destination held by the bytes received (the file is
  truncated on opening and rewritten). Running twice in the same world leaves the file
  system the first run left. And after a successful run (exit status 0) that follows any
  earlier run, every destination of the configuration exists and holds exactly what this
  last run alone would have put there, whatever the file system held before it.
\<close>

theorem rerun_last_run_wins:
  "(fst (download_file w url (JStr d) s) = Inr True \<longrightarrow>
      (\<exists>r. get_result w = Inr r \<and>
           files (snd (download_file w url (JStr d) s)) = (files s)(d \<mapsto> concat (chunks r))))
   \<and> files (snd (run argv e (files (snd (run argv e fs))))) = files (snd (run argv e fs))
   \<and> (read_config e2 (config_path argv) = Inr (JObj cfg) \<and>
      map_of cfg ''downloads'' = Some (JList items) \<and>
      fst (run argv e2 (files (snd (run argv e1 fs)))) = 0 \<and>
      item \<in> set items \<and> py_get item ''destination'' JNull = Inr (JStr p)
      \<longrightarrow> files (snd (run argv e2 (files (snd (run argv e1 fs))))) p
            = files (snd (run argv e2 fs')) p
        \<and> files (snd (run argv e2 fs')) p \<noteq> None)"
proof -
  have over: "fst (download_file w url (JStr d) s) = Inr True \<longrightarrow>
      (\<exists>r. get_result w = Inr r \<and>
           files (snd (download_file w url (JStr d) s)) = (files s)(d \<mapsto> concat (chunks r)))"
    using download_file_overwrites [of w url d s] by blast
  have idem: "files (snd (run argv e (files (snd (run argv e fs))))) = files (snd (run argv e fs))"
  proof -
    let ?W = "files (snd (run argv e Map.empty))"
    have "files (snd (run argv e (files (snd (run argv e fs))))) = (fs ++ ?W) ++ ?W"
      using run_files [of argv e "files (snd (run argv e fs))"] run_files [of argv e fs] by simp
    also have "\<dots> = fs ++ ?W"
      by (auto simp: fun_eq_iff map_add_def split: option.splits)
    finally show ?thesis
      using run_files [of argv e fs] by simp
  qed
  have last: "files (snd (run argv e2 (files (snd (run argv e1 fs))))) p
            = files (snd (run argv e2 fs')) p
        \<and> files (snd (run argv e2 fs')) p \<noteq> None"
    if h: "read_config e2 (config_path argv) = Inr (JObj cfg) \<and>
      map_of cfg ''downloads'' = Some (JList items) \<and>
      fst (run argv e2 (files (snd (run argv e1 fs)))) = 0 \<and>
      item \<in> set items \<and> py_get item ''destination'' JNull = Inr (JStr p)"
  proof -
    from h have rc: "read_config e2 (config_path argv) = Inr (JObj cfg)"
      and dl: "map_of cfg ''downloads'' = Some (JList items)"
      and ok: "fst (run argv e2 (files (snd (run argv e1 fs)))) = 0"
      and it: "item \<in> set items" and dst: "py_get item ''destination'' JNull = Inr (JStr p)"
      by simp_all
    from it have ne: "items \<noteq> []" by auto
    from run_status_list [OF rc dl ne, of "files (snd (run argv e1 fs))"] ok
    have all: "all_succeed e2 1 items" by (simp split: if_splits)
    let ?n = "length items"
    let ?s4 = "at_loop argv ?n (start Map.empty)"
    let ?W = "files (snd (run argv e2 Map.empty))"
    obtain r s5 where loop: "main_loop e2 ?n 1 items 0 0 ?s4 = (r, s5)"
      by (cases "main_loop e2 ?n 1 items 0 0 ?s4")
    from all_succeed_writes_destinations [OF all it dst, of ?n 0 0 ?s4] loop
    have "p \<in> dom (files s5)" by simp
    moreover have "?W = files s5"
      using main_on_list [OF rc dl ne, of "start Map.empty"] loop
      by (auto simp: run_def split: sum.splits prod.splits)
    ultimately have w: "p \<in> dom ?W" by simp
    have "files (snd (run argv e2 fsx)) p = ?W p" for fsx
      using run_files [of argv e2 fsx] w by (auto simp: map_add_def split: option.splits)
    with w show ?thesis by auto
  qed
  from over idem last show ?thesis by blast
qed

theorem rerun_last_run_wins_witness:
  "fst (download_file (attempt_ok [''abc'', ''def'']) (JStr ''http://h/a'') (JStr ''out/a'')
          (start [''out/a'' \<mapsto> ''stale''])) = Inr True
   \<and> files (snd (download_file (attempt_ok [''abc'', ''def'']) (JStr ''http://h/a'') (JStr ''out/a'')
          (start [''out/a'' \<mapsto> ''stale'']))) ''out/a'' = Some ''abcdef''
   \<and> read_config world_all_ok (config_path [''DataPuller.py'']) = Inr (JObj [(''downloads'', JList two_items)])
   \<and> map_of [(''downloads'', JList two_items)] ''downloads'' = Some (JList two_items)
   \<and> fst (run [''DataPuller.py''] world_all_ok
            (files (snd (run [''DataPuller.py''] world_second_offline [''out/b'' \<mapsto> ''stale''])))) = 0
   \<and> work_item ''http://h/b'' ''out/b'' \<in> set two_items
   \<and> py_get (work_item ''http://h/b'' ''out/b'') ''destination'' JNull = Inr (JStr ''out/b'')
   \<and> files (snd (run [''DataPuller.py''] world_all_ok
            (files (snd (run [''DataPuller.py''] world_second_offline [''out/b'' \<mapsto> ''stale''])))))
        ''out/b'' = Some ''abcdef''"
proof -
  have a1: "fst (download_file (attempt_ok [''abc'', ''def'']) (JStr ''http://h/a'') (JStr ''out/a'')
          (start [''out/a'' \<mapsto> ''stale''])) = Inr True"
    by (simp add: sample_defs script_defs)
  have h1: "read_config world_all_ok (config_path [''DataPuller.py'']) = Inr (JObj [(''downloads'', JList two_items)])"
    by (simp add: sample_defs)
  have h2: "map_of [(''downloads'', JList two_items)] ''downloads'' = Some (JList two_items)"
    by simp
  have h3: "fst (run [''DataPuller.py''] world_all_ok
            (files (snd (run [''DataPuller.py''] world_second_offline [''out/b'' \<mapsto> ''stale''])))) = 0"
    by (simp add: sample_defs script_defs)
  have h4: "work_item ''http://h/b'' ''out/b'' \<in> set two_items"
    by (simp add: two_items_def)
  have h5: "py_get (work_item ''http://h/b'' ''out/b'') ''destination'' JNull = Inr (JStr ''out/b'')"
    by (simp add: work_item_def)
  have alone: "files (snd (run [''DataPuller.py''] world_all_ok Map.empty)) ''out/b'' = Some ''abcdef''"
    by (simp add: sample_defs script_defs)
  note t = rerun_last_run_wins [where w = "attempt_ok [''abc'', ''def'']" and url = "JStr ''http://h/a''"
      and d = "''out/a''" and s = "start [''out/a'' \<mapsto> ''stale'']" and argv = "[''DataPuller.py'']"
      and e = world_all_ok and ?e2.0 = world_all_ok and cfg = "[(''downloads'', JList two_items)]"
      and items = two_items and ?e1.0 = world_second_offline and fs = "[''out/b'' \<mapsto> ''stale'']"
      and item = "work_item ''http://h/b'' ''out/b''" and p = "''out/b''" and fs' = Map.empty]
  from t a1 have a2: "files (snd (download_file (attempt_ok [''abc'', ''def'']) (JStr ''http://h/a'') (JStr ''out/a'')
          (start [''out/a'' \<mapsto> ''stale'']))) ''out/a'' = Some ''abcdef''"
    by (auto simp: attempt_ok_def)
  from t h1 h2 h3 h4 h5 alone
  have b: "files (snd (run [''DataPuller.py''] world_all_ok
            (files (snd (run [''DataPuller.py''] world_second_offline [''out/b'' \<mapsto> ''stale''])))))
        ''out/b'' = Some ''abcdef''"
    by metis
  from a1 a2 h1 h2 h3 h4 h5 b show ?thesis by blast
qed

end
